theory Spec2Isabelle
  imports Complex_Main "HOL-Library.Product_Lexorder" "HOL-Library.Sublist"
    "HOL-Library.Multiset"
begin

section \<open>Values and exceptions\<close>

text \<open>
  The tracker works on decoded JSON: \<^verbatim>\<open>None\<close>, booleans, integers, floats, strings, lists
  and dictionaries. A dictionary is an association list in insertion order; as decoded
  JSON it has no repeated key. Finite floats are rationals.
\<close>

datatype json = JNull | JBool bool | JInt int | JFloat rat | JStr string
  | JArr "json list" | JObj "(string \<times> json) list"

text \<open>
  The exceptions the modelled code can meet. \<open>TransportError\<close> stands for any exception
  of the HTTP library (connection error, timeout); \<open>JSONDecodeError\<close> is the subclass of
  \<^verbatim>\<open>ValueError\<close> raised by \<^verbatim>\<open>resp.json()\<close>.
\<close>

datatype pyexc = AttributeError | TypeError | ValueError | OverflowError | OSError
  | JSONDecodeError | RuntimeError string | TransportError string

text \<open>Truthiness, as \<^verbatim>\<open>if x\<close>, \<^verbatim>\<open>x or y\<close> and \<^verbatim>\<open>not x\<close> test it.\<close>

fun truthy :: "json \<Rightarrow> bool" where
  "truthy JNull = False"
| "truthy (JBool b) = b"
| "truthy (JInt i) = (i \<noteq> 0)"
| "truthy (JFloat q) = (q \<noteq> 0)"
| "truthy (JStr s) = (s \<noteq> [])"
| "truthy (JArr xs) = (xs \<noteq> [])"
| "truthy (JObj kvs) = (kvs \<noteq> [])"

definition py_or :: "json \<Rightarrow> json \<Rightarrow> json" where
  "py_or a b = (if truthy a then a else b)"

text \<open>\<^verbatim>\<open>str.lower()\<close> on the ASCII letters, the only ones the status tables mention.\<close>

definition lower_char :: "char \<Rightarrow> char" where
  "lower_char c = (let n = (of_char c :: nat) in
     if 65 \<le> n \<and> n \<le> 90 then char_of (n + 32) else c)"

definition py_lower :: "string \<Rightarrow> string" where
  "py_lower s = map lower_char s"

section \<open>Display timestamps\<close>

record datetime =
  dt_year :: int
  dt_month :: int
  dt_day :: int
  dt_hour :: int
  dt_minute :: int

text \<open>Days since 1970-01-01 to a civil date of the proleptic Gregorian calendar.\<close>

definition civil_from_days :: "int \<Rightarrow> int \<times> int \<times> int" where
  "civil_from_days days =
     (let z = days + 719468;
          era = z div 146097;
          doe = z - era * 146097;
          yoe = (doe - doe div 1460 + doe div 36524 - doe div 146096) div 365;
          doy = doe - (365 * yoe + yoe div 4 - yoe div 100);
          mp = (5 * doy + 2) div 153;
          d = doy - (153 * mp + 2) div 5 + 1;
          m = (if mp < 10 then mp + 3 else mp - 9);
          y = yoe + era * 400 + (if m \<le> 2 then 1 else 0)
      in (y, m, d))"

text \<open>
  \<^verbatim>\<open>RIYADH_TZ\<close> is the zone \<^verbatim>\<open>Asia/Riyadh\<close>: three hours east of UTC, and on local mean
  time, 3:06:52 east, before 13 March 1947. (Only where the zone database is missing
  does the source fall back to a fixed offset of three hours.)
\<close>

definition riyadh_utcoffset :: "int \<Rightarrow> int" where
  "riyadh_utcoffset ts = (if ts < - 719636812 then 11212 else 10800)"

text \<open>
  \<^verbatim>\<open>datetime.fromtimestamp(ts, tz=RIYADH_TZ)\<close> for an integer \<open>ts\<close>, as CPython on a
  64-bit platform does it: the conversion to \<^verbatim>\<open>time_t\<close> raises \<^verbatim>\<open>OverflowError\<close> outside
  64 bits, \<^verbatim>\<open>gmtime\<close> fails with \<^verbatim>\<open>OSError\<close> when the year does not fit a C int, a year
  outside 1..9999 raises \<^verbatim>\<open>ValueError\<close>, and adding the offset raises \<^verbatim>\<open>OverflowError\<close>
  when the local time leaves year 9999.
\<close>

definition datetime_fromtimestamp :: "int \<Rightarrow> pyexc + datetime" where
  "datetime_fromtimestamp ts =
     (if ts < - (2 ^ 63) \<or> 2 ^ 63 \<le> ts then Inl OverflowError
      else if ts < - 67768040609740800 \<or> 67768036191676799 < ts then Inl OSError
      else if ts < - 62135596800 \<or> 253402300799 < ts then Inl ValueError
      else if 253402300799 < ts + riyadh_utcoffset ts then Inl OverflowError
      else let local = ts + riyadh_utcoffset ts;
               (y, m, d) = civil_from_days (local div 86400);
               secs = local mod 86400
           in Inr \<lparr>dt_year = y, dt_month = m, dt_day = d,
                    dt_hour = secs div 3600, dt_minute = (secs mod 3600) div 60\<rparr>)"

definition digit_char :: "nat \<Rightarrow> char" where
  "digit_char n = char_of (48 + n mod 10)"

fun show_nat_aux :: "nat \<Rightarrow> nat \<Rightarrow> string \<Rightarrow> string" where
  "show_nat_aux 0 n acc = acc"
| "show_nat_aux (Suc fuel) n acc =
     (if n < 10 then digit_char n # acc
      else show_nat_aux fuel (n div 10) (digit_char n # acc))"

text \<open>Decimal digits of a natural number; \<open>n + 1\<close> steps always suffice.\<close>

definition show_nat :: "nat \<Rightarrow> string" where
  "show_nat n = show_nat_aux (Suc n) n []"

definition two_digits :: "int \<Rightarrow> string" where
  "two_digits n = [digit_char (nat n div 10), digit_char (nat n)]"

text \<open>\<^verbatim>\<open>dt.strftime("%Y-%m-%d %H:%M")\<close>; the C library prints the year without padding.\<close>

definition strftime :: "datetime \<Rightarrow> string" where
  "strftime dt = show_nat (nat (dt_year dt)) @ ''-'' @ two_digits (dt_month dt) @ ''-''
     @ two_digits (dt_day dt) @ '' '' @ two_digits (dt_hour dt) @ '':''
     @ two_digits (dt_minute dt)"

text \<open>
  \<^verbatim>\<open>format_timestamp\<close>: \<^verbatim>\<open>None\<close> stays \<^verbatim>\<open>None\<close>; the handler catches \<^verbatim>\<open>ValueError\<close> and
  \<^verbatim>\<open>OSError\<close> only, every other exception leaves the function.
\<close>

definition format_timestamp :: "int option \<Rightarrow> pyexc + string option" where
  "format_timestamp ts =
     (case ts of
        None \<Rightarrow> Inr None
      | Some t \<Rightarrow>
          (case datetime_fromtimestamp t of
             Inr dt \<Rightarrow> Inr (Some (strftime dt))
           | Inl e \<Rightarrow> if e = ValueError \<or> e = OSError then Inr None else Inl e))"

section \<open>Status events and their ranking\<close>

text \<open>
  The dictionary \<^verbatim>\<open>extract_status_updates\<close> builds for one status callback. \<open>status\<close> and
  \<open>recipient_id\<close> are copied from the payload as they are, so they are JSON values
  (\<open>JNull\<close> is \<^verbatim>\<open>None\<close>); the timestamp has been normalised to an integer or \<^verbatim>\<open>None\<close>.
\<close>

record status_event =
  status :: json
  timestamp :: "int option"
  timestampFormatted :: "string option"
  recipient_id :: json
  executionId :: string
  recipientMismatch :: bool

definition priority_map :: "(string \<times> nat) list" where
  "priority_map = [(''failed'', 100), (''undelivered'', 100), (''read'', 50),
     (''delivered'', 40), (''sent'', 30), (''unknown'', 10)]"

text \<open>\<^verbatim>\<open>status.lower()\<close> exists on strings only.\<close>

definition get_status_priority :: "json \<Rightarrow> pyexc + nat" where
  "get_status_priority s =
     (case s of
        JStr str \<Rightarrow> Inr (case map_of priority_map (py_lower str) of
                            Some p \<Rightarrow> p | None \<Rightarrow> 10)
      | _ \<Rightarrow> Inl AttributeError)"

definition is_terminal_status :: "json \<Rightarrow> pyexc + bool" where
  "is_terminal_status s =
     (case s of
        JStr str \<Rightarrow> Inr (py_lower str \<in> set [''failed'', ''undelivered'', ''read''])
      | _ \<Rightarrow> Inl AttributeError)"

text \<open>\<^verbatim>\<open>x.get("timestamp") or 0\<close>.\<close>

definition ts_or_0 :: "int option \<Rightarrow> int" where
  "ts_or_0 t = (case t of None \<Rightarrow> 0 | Some n \<Rightarrow> n)"

text \<open>
  \<^verbatim>\<open>sorted(xs, key=f, reverse=True)\<close>: the key of every element is computed first, in
  list order (the first exception leaves the sort); the list is then reversed, sorted
  stably in ascending key order and reversed again, so equal keys keep their input
  order.
\<close>

fun keyed :: "('a \<Rightarrow> pyexc + 'k) \<Rightarrow> 'a list \<Rightarrow> pyexc + ('k \<times> 'a) list" where
  "keyed f [] = Inr []"
| "keyed f (x # xs) =
     (case f x of
        Inl e \<Rightarrow> Inl e
      | Inr k \<Rightarrow> (case keyed f xs of Inl e \<Rightarrow> Inl e | Inr r \<Rightarrow> Inr ((k, x) # r)))"

definition sorted_reverse :: "('k::linorder \<times> 'a) list \<Rightarrow> 'a list" where
  "sorted_reverse kxs = map snd (rev (sort_key fst (rev kxs)))"

definition latest_key :: "status_event \<Rightarrow> pyexc + (int \<times> nat)" where
  "latest_key x =
     (case get_status_priority (status x) of
        Inl e \<Rightarrow> Inl e
      | Inr p \<Rightarrow> Inr (ts_or_0 (timestamp x), p))"

definition determine_latest_status ::
  "status_event list \<Rightarrow> pyexc + (json \<times> int option)" where
  "determine_latest_status history =
     (if history = [] then Inr (JStr ''not_found'', None)
      else if list_all recipientMismatch history
        then Inr (JStr ''wa_id_mismatch'', timestamp (hd history))
      else let valid_history = filter (\<lambda>h. \<not> recipientMismatch h) history in
        if valid_history = [] then Inr (JStr ''wa_id_mismatch'', timestamp (hd history))
        else (case keyed latest_key valid_history of
                Inl e \<Rightarrow> Inl e
              | Inr kxs \<Rightarrow> let latest = hd (sorted_reverse kxs)
                           in Inr (status latest, timestamp latest)))"

section \<open>Deduplication and the tracked result\<close>

text \<open>
  A set of tuples holds its members up to Python's \<^verbatim>\<open>==\<close>: \<^verbatim>\<open>True == 1 == 1.0\<close>. Looking a
  tuple up hashes its components, which raises \<^verbatim>\<open>TypeError\<close> on a list or a dictionary.
  \<open>py_key\<close> picks one representative of each class of hashable values.
\<close>

definition py_hashable :: "json \<Rightarrow> bool" where
  "py_hashable j = (case j of JArr _ \<Rightarrow> False | JObj _ \<Rightarrow> False | _ \<Rightarrow> True)"

definition py_key :: "json \<Rightarrow> json" where
  "py_key j =
     (case j of
        JBool b \<Rightarrow> JInt (if b then 1 else 0)
      | JFloat q \<Rightarrow> (if of_int \<lfloor>q\<rfloor> = q then JInt \<lfloor>q\<rfloor> else JFloat q)
      | _ \<Rightarrow> j)"

type_synonym track_key = "json \<times> int option \<times> json \<times> string"

definition unique_key :: "status_event \<Rightarrow> track_key" where
  "unique_key s = (py_key (status s), timestamp s, py_key (recipient_id s), executionId s)"

text \<open>
  The deduplication loop, written twice in the source with the same shape: a set
  \<^verbatim>\<open>seen\<close> of keys, a list of kept items, the item appended when its key is new.
\<close>

fun dedup_by :: "('a \<Rightarrow> bool) \<Rightarrow> ('a \<Rightarrow> 'k) \<Rightarrow> 'k set \<Rightarrow> 'a list \<Rightarrow> 'a list
    \<Rightarrow> pyexc + 'a list" where
  "dedup_by hashable key seen deduplicated [] = Inr deduplicated"
| "dedup_by hashable key seen deduplicated (item # rest) =
     (if \<not> hashable item then Inl TypeError
      else if key item \<notin> seen
        then dedup_by hashable key (insert (key item) seen) (deduplicated @ [item]) rest
      else dedup_by hashable key seen deduplicated rest)"

text \<open>The loop of \<^verbatim>\<open>track_message_status\<close> over \<^verbatim>\<open>all_statuses\<close>.\<close>

definition dedup_statuses :: "status_event list \<Rightarrow> pyexc + status_event list" where
  "dedup_statuses all_statuses =
     dedup_by (\<lambda>s. py_hashable (status s) \<and> py_hashable (recipient_id s)) unique_key {} []
       all_statuses"

text \<open>\<^verbatim>\<open>deduplicate_history\<close> of the persistence path: status, timestamp, executionId.\<close>

type_synonym history_key = "json \<times> int option \<times> string"

definition history_unique_key :: "status_event \<Rightarrow> history_key" where
  "history_unique_key item = (py_key (status item), timestamp item, executionId item)"

definition deduplicate_history :: "status_event list \<Rightarrow> pyexc + status_event list" where
  "deduplicate_history hist =
     dedup_by (\<lambda>item. py_hashable (status item)) history_unique_key {} [] hist"

record track_result =
  waId :: string
  messageId :: string
  workflowId :: string
  latestStatus :: json
  latestTimestamp :: "int option"
  latestTimestampFormatted :: "string option"
  history :: "status_event list"
  foundInExecutionsCount :: nat

text \<open>
  \<^verbatim>\<open>track_message_status\<close> after the scan: the events are deduplicated, then sorted by
  \<^verbatim>\<open>timestamp or 0\<close> descending; that list is the \<^verbatim>\<open>history\<close> of the result.
\<close>

definition track_history :: "status_event list \<Rightarrow> pyexc + status_event list" where
  "track_history all_statuses =
     (case dedup_statuses all_statuses of
        Inl e \<Rightarrow> Inl e
      | Inr deduplicated \<Rightarrow>
          Inr (sorted_reverse (map (\<lambda>x. (ts_or_0 (timestamp x), x)) deduplicated)))"

text \<open>The rest of \<^verbatim>\<open>track_message_status\<close>: resolve the latest status and build the result.\<close>

definition resolve_statuses :: "string \<Rightarrow> string \<Rightarrow> string \<Rightarrow> status_event list
    \<Rightarrow> pyexc + track_result" where
  "resolve_statuses wa_id message_id workflow_id all_statuses =
     (case track_history all_statuses of
        Inl e \<Rightarrow> Inl e
      | Inr sorted_statuses \<Rightarrow>
          (case determine_latest_status sorted_statuses of
             Inl e \<Rightarrow> Inl e
           | Inr (latest_status, latest_timestamp) \<Rightarrow>
               (case format_timestamp latest_timestamp of
                  Inl e \<Rightarrow> Inl e
                | Inr formatted \<Rightarrow>
                    Inr \<lparr>waId = wa_id, messageId = message_id, workflowId = workflow_id,
                         latestStatus = latest_status, latestTimestamp = latest_timestamp,
                         latestTimestampFormatted = formatted, history = sorted_statuses,
                         foundInExecutionsCount = length sorted_statuses\<rparr>)))"

text \<open>
  The ranking as the specification words it: the priority of a status string, and the
  pair (timestamp or 0, priority) compared lexicographically.
\<close>

definition spec_priority :: "string \<Rightarrow> nat" where
  "spec_priority s =
     (let l = py_lower s in
      if l = ''failed'' \<or> l = ''undelivered'' then 100
      else if l = ''read'' then 50
      else if l = ''delivered'' then 40
      else if l = ''sent'' then 30
      else 10)"

fun status_string :: "json \<Rightarrow> string option" where
  "status_string (JStr s) = Some s"
| "status_string _ = None"

definition event_rank :: "status_event \<Rightarrow> int \<times> nat" where
  "event_rank e =
     (ts_or_0 (timestamp e),
      case status_string (status e) of Some s \<Rightarrow> spec_priority s | None \<Rightarrow> 10)"

text \<open>
  The events of the data model: the status is a string, the recipient a string or
  absent. For them the keys are the plain tuples of the fields.
\<close>

fun is_str :: "json \<Rightarrow> bool" where
  "is_str (JStr s) = True"
| "is_str _ = False"

fun is_str_or_none :: "json \<Rightarrow> bool" where
  "is_str_or_none (JStr s) = True"
| "is_str_or_none JNull = True"
| "is_str_or_none _ = False"

definition typed_event :: "status_event \<Rightarrow> bool" where
  "typed_event e = (is_str (status e) \<and> is_str_or_none (recipient_id e))"

definition event_key :: "status_event \<Rightarrow> json \<times> int option \<times> json \<times> string" where
  "event_key e = (status e, timestamp e, recipient_id e, executionId e)"

definition event_key3 :: "status_event \<Rightarrow> json \<times> int option \<times> string" where
  "event_key3 e = (status e, timestamp e, executionId e)"

section \<open>Reading the execution payload\<close>

text \<open>\<^verbatim>\<open>d.get(k, default)\<close> on a dictionary, and on a value that may be no dictionary.\<close>

definition dict_get :: "(string \<times> json) list \<Rightarrow> string \<Rightarrow> json \<Rightarrow> json" where
  "dict_get d k dflt = (case map_of d k of Some v \<Rightarrow> v | None \<Rightarrow> dflt)"

definition py_get :: "json \<Rightarrow> string \<Rightarrow> json \<Rightarrow> pyexc + json" where
  "py_get j k dflt = (case j of JObj d \<Rightarrow> Inr (dict_get d k dflt) | _ \<Rightarrow> Inl AttributeError)"

text \<open>
  What a \<^verbatim>\<open>for\<close> loop (or \<^verbatim>\<open>list.extend\<close>) draws from a value: the elements of a list, the
  characters of a string, the keys of a dictionary; other values are not iterable.
\<close>

definition py_iter :: "json \<Rightarrow> pyexc + json list" where
  "py_iter j =
     (case j of
        JArr xs \<Rightarrow> Inr xs
      | JStr s \<Rightarrow> Inr (map (\<lambda>c. JStr [c]) s)
      | JObj d \<Rightarrow> Inr (map (\<lambda>kv. JStr (fst kv)) d)
      | _ \<Rightarrow> Inl TypeError)"

text \<open>A loop body run on every element in turn, the results appended; the first
  exception leaves the loop.\<close>

fun concat_mapE :: "('a \<Rightarrow> pyexc + 'b list) \<Rightarrow> 'a list \<Rightarrow> pyexc + 'b list" where
  "concat_mapE f [] = Inr []"
| "concat_mapE f (x # xs) =
     (case f x of
        Inl e \<Rightarrow> Inl e
      | Inr ys \<Rightarrow> (case concat_mapE f xs of Inl e \<Rightarrow> Inl e | Inr zs \<Rightarrow> Inr (ys @ zs)))"

text \<open>
  Two built-ins are parameters of the model: \<^verbatim>\<open>str(x)\<close>, and \<^verbatim>\<open>int(s)\<close> on a string, which
  gives \<open>None\<close> where Python raises \<^verbatim>\<open>ValueError\<close>.
\<close>

record builtins =
  py_str :: "json \<Rightarrow> string"
  py_int :: "string \<Rightarrow> int option"

text \<open>\<^verbatim>\<open>normalize_timestamp\<close>; a boolean is an \<^verbatim>\<open>int\<close> for \<^verbatim>\<open>isinstance\<close>.\<close>

definition normalize_timestamp :: "builtins \<Rightarrow> json \<Rightarrow> int option" where
  "normalize_timestamp B ts =
     (case ts of
        JNull \<Rightarrow> None
      | JBool b \<Rightarrow> Some (if b then 1 else 0)
      | JInt i \<Rightarrow> Some i
      | JStr s \<Rightarrow> py_int B s
      | _ \<Rightarrow> None)"

text \<open>The body of the innermost loop of \<^verbatim>\<open>extract_status_updates\<close>, for one \<^verbatim>\<open>status_obj\<close>.\<close>

definition extract_status_obj :: "builtins \<Rightarrow> string \<Rightarrow> string \<Rightarrow> string \<Rightarrow> json
    \<Rightarrow> pyexc + status_event list" where
  "extract_status_obj B execution_id message_id wa_id status_obj =
     (case status_obj of
        JObj d \<Rightarrow>
          if dict_get d ''id'' (JStr '''') \<noteq> JStr message_id then Inr []
          else
            let st = dict_get d ''status'' (JStr ''unknown'');
                ts = normalize_timestamp B (dict_get d ''timestamp'' JNull);
                rid = dict_get d ''recipient_id'' JNull;
                recipient_mismatch = (truthy rid \<and> rid \<noteq> JStr wa_id)
            in (case format_timestamp ts of
                  Inl e \<Rightarrow> Inl e
                | Inr formatted \<Rightarrow>
                    Inr [\<lparr>status = st, timestamp = ts, timestampFormatted = formatted,
                          recipient_id = rid, executionId = execution_id,
                          recipientMismatch = recipient_mismatch\<rparr>])
      | _ \<Rightarrow> Inr [])"

text \<open>One \<^verbatim>\<open>item\<close> of an output slot: find the webhook body, then its \<^verbatim>\<open>statuses\<close>.\<close>

definition extract_item :: "builtins \<Rightarrow> string \<Rightarrow> string \<Rightarrow> string \<Rightarrow> json
    \<Rightarrow> pyexc + status_event list" where
  "extract_item B execution_id message_id wa_id item =
     (case item of
        JObj d \<Rightarrow>
          let j = dict_get d ''json'' (JObj []) in
          (case py_get j ''body'' JNull of
             Inl e \<Rightarrow> Inl e
           | Inr b \<Rightarrow>
               let body0 = py_or b j;
                   body = (case body0 of JArr (x # xs) \<Rightarrow> x | _ \<Rightarrow> body0)
               in (case py_get body ''statuses'' JNull of
                     Inl e \<Rightarrow> Inl e
                   | Inr s \<Rightarrow>
                       (case py_or s (JArr []) of
                          JArr statuses \<Rightarrow>
                            concat_mapE (extract_status_obj B execution_id message_id wa_id)
                              statuses
                        | _ \<Rightarrow> Inr [])))
      | _ \<Rightarrow> Inr [])"

definition extract_main_item :: "builtins \<Rightarrow> string \<Rightarrow> string \<Rightarrow> string \<Rightarrow> json
    \<Rightarrow> pyexc + status_event list" where
  "extract_main_item B execution_id message_id wa_id main_item =
     (case main_item of
        JArr items \<Rightarrow> concat_mapE (extract_item B execution_id message_id wa_id) items
      | _ \<Rightarrow> Inr [])"

definition extract_run :: "builtins \<Rightarrow> string \<Rightarrow> string \<Rightarrow> string \<Rightarrow> json
    \<Rightarrow> pyexc + status_event list" where
  "extract_run B execution_id message_id wa_id run =
     (case run of
        JObj d \<Rightarrow>
          (case py_get (dict_get d ''data'' (JObj [])) ''main'' JNull of
             Inl e \<Rightarrow> Inl e
           | Inr m \<Rightarrow>
               (case py_iter (py_or m (JArr [])) of
                  Inl e \<Rightarrow> Inl e
                | Inr main_data \<Rightarrow>
                    concat_mapE (extract_main_item B execution_id message_id wa_id) main_data))
      | _ \<Rightarrow> Inr [])"

definition extract_node :: "builtins \<Rightarrow> string \<Rightarrow> string \<Rightarrow> string \<Rightarrow> json
    \<Rightarrow> pyexc + status_event list" where
  "extract_node B execution_id message_id wa_id node_runs =
     (case node_runs of
        JArr runs \<Rightarrow> concat_mapE (extract_run B execution_id message_id wa_id) runs
      | _ \<Rightarrow> Inr [])"

text \<open>\<^verbatim>\<open>run_data.items()\<close> exists on a dictionary only.\<close>

definition py_items :: "json \<Rightarrow> pyexc + (string \<times> json) list" where
  "py_items j = (case j of JObj d \<Rightarrow> Inr d | _ \<Rightarrow> Inl AttributeError)"

definition extract_status_updates :: "builtins \<Rightarrow> json \<Rightarrow> string \<Rightarrow> string
    \<Rightarrow> pyexc + status_event list" where
  "extract_status_updates B execution message_id wa_id =
     (case py_get execution ''id'' (JStr ''unknown'') of
        Inl e \<Rightarrow> Inl e
      | Inr ident \<Rightarrow>
     (case py_get execution ''data'' JNull of
        Inl e \<Rightarrow> Inl e
      | Inr d1 \<Rightarrow>
     (case (if truthy d1 then Inr d1 else py_get execution ''executionData'' JNull) of
        Inl e \<Rightarrow> Inl e
      | Inr d2 \<Rightarrow>
     (case py_get (py_or d2 (JObj [])) ''resultData'' JNull of
        Inl e \<Rightarrow> Inl e
      | Inr rd \<Rightarrow>
     (case py_get (py_or rd (JObj [])) ''runData'' JNull of
        Inl e \<Rightarrow> Inl e
      | Inr rund \<Rightarrow>
     (case py_items (py_or rund (JObj [])) of
        Inl e \<Rightarrow> Inl e
      | Inr nodes \<Rightarrow>
          concat_mapE (\<lambda>kv. extract_node B (py_str B ident) message_id wa_id (snd kv))
            nodes))))))"

section \<open>Scanning the executions of one message\<close>

text \<open>
  The variables of the scan loop of \<^verbatim>\<open>track_message_status\<close>, and \<open>scanned\<close>, the list of
  the executions handed to \<^verbatim>\<open>extract_status_updates\<close> so far.
\<close>

record scan_state =
  all_statuses :: "status_event list"
  found_terminal :: bool
  scanned :: "json list"

text \<open>\<^verbatim>\<open>if since: statuses = [s for s in statuses if (s.get("timestamp") or 0) >= since]\<close>.\<close>

definition since_filter :: "int option \<Rightarrow> status_event list \<Rightarrow> status_event list" where
  "since_filter since statuses =
     (case since of
        None \<Rightarrow> statuses
      | Some n \<Rightarrow> if n = 0 then statuses
                  else filter (\<lambda>s. n \<le> ts_or_0 (timestamp s)) statuses)"

text \<open>The loop that sets \<^verbatim>\<open>found_terminal\<close>; it stops at the first status that raises.\<close>

fun check_terminal :: "bool \<Rightarrow> status_event list \<Rightarrow> bool \<times> pyexc option" where
  "check_terminal ft [] = (ft, None)"
| "check_terminal ft (s # ss) =
     (case is_terminal_status (status s) of
        Inl e \<Rightarrow> (ft, Some e)
      | Inr b \<Rightarrow> check_terminal (if b then True else ft) ss)"

text \<open>
  The handler prints \<^verbatim>\<open>execution.get('id')\<close> and continues; on an execution that is no
  dictionary that call raises in its turn and the exception leaves the scan.
\<close>

fun scan_executions :: "builtins \<Rightarrow> string \<Rightarrow> string \<Rightarrow> int option \<Rightarrow> scan_state
    \<Rightarrow> json list \<Rightarrow> pyexc + scan_state" where
  "scan_executions B message_id wa_id since st [] = Inr st"
| "scan_executions B message_id wa_id since st (execution # rest) =
     (let st0 = st\<lparr>scanned := scanned st @ [execution]\<rparr> in
      case extract_status_updates B execution message_id wa_id of
        Inl e \<Rightarrow>
          (case py_get execution ''id'' JNull of
             Inl e' \<Rightarrow> Inl e'
           | Inr _ \<Rightarrow> scan_executions B message_id wa_id since st0 rest)
      | Inr extracted \<Rightarrow>
          let statuses = since_filter since extracted in
          if statuses = [] then scan_executions B message_id wa_id since st0 rest
          else
            let st1 = st0\<lparr>all_statuses := all_statuses st0 @ statuses\<rparr> in
            (case check_terminal (found_terminal st1) statuses of
               (ft, Some e) \<Rightarrow>
                 scan_executions B message_id wa_id since (st1\<lparr>found_terminal := ft\<rparr>) rest
             | (ft, None) \<Rightarrow>
                 if ft then Inr (st1\<lparr>found_terminal := ft\<rparr>)
                 else scan_executions B message_id wa_id since (st1\<lparr>found_terminal := ft\<rparr>) rest))"

section \<open>Fetching the executions\<close>

record http_response =
  status_code :: nat
  resp_text :: string
  resp_json :: "json option"

text \<open>
  The query of one listing call: \<^verbatim>\<open>workflowId\<close>, \<^verbatim>\<open>limit\<close>, \<^verbatim>\<open>includeData=true\<close> and the
  cursor when there is one.
\<close>

record fetch_request =
  req_workflowId :: string
  req_limit :: int
  req_cursor :: "string option"

text \<open>
  \<^verbatim>\<open>request_with_retry(session, "GET", url, ...)\<close> as \<^verbatim>\<open>fetch_executions\<close> sees it: the
  outside world in some state answers a request with a response or an exception and
  moves to a next state. Nothing is assumed about the answers.
\<close>

type_synonym 'w requester = "'w \<Rightarrow> fetch_request \<Rightarrow> (pyexc + http_response) \<times> 'w"

text \<open>
  A page that was received and added to the result: the count before it, the number of
  records it brought, and whether it carried a continuation cursor.
\<close>

record page =
  fetched_before :: int
  batch_size :: nat
  has_cursor :: bool

text \<open>
  The variables of the pagination loop, the world, and two logs: the requests made and
  the pages received so far.
\<close>

record 'w fetch_state =
  out :: "json list"
  cursor :: json
  fetched :: int
  world :: 'w
  requests :: "fetch_request list"
  pages :: "page list"

datatype 's loop_step = Stop "pyexc option" 's | Next 's

text \<open>
  One turn of the \<^verbatim>\<open>while\<close> body. \<^verbatim>\<open>quote(cursor)\<close> accepts a string only; a status other
  than 200 raises; \<^verbatim>\<open>resp.json()\<close> raises on a body that is no JSON; \<^verbatim>\<open>out.extend(batch)\<close>
  iterates the batch.
\<close>

definition fetch_page :: "'w requester \<Rightarrow> string \<Rightarrow> int \<Rightarrow> 'w fetch_state
    \<Rightarrow> 'w fetch_state loop_step" where
  "fetch_page request workflow_id limit st =
     (let batch_limit = min 100 (limit - fetched st) in
      case (if truthy (cursor st)
            then (case cursor st of JStr c \<Rightarrow> Inr (Some c) | _ \<Rightarrow> Inl TypeError)
            else Inr None) of
        Inl e \<Rightarrow> Stop (Some e) st
      | Inr cur \<Rightarrow>
          let req = \<lparr>req_workflowId = workflow_id, req_limit = batch_limit, req_cursor = cur\<rparr>;
              (answer, w1) = request (world st) req;
              st1 = st\<lparr>world := w1, requests := requests st @ [req]\<rparr>
          in (case answer of
                Inl e \<Rightarrow> Stop (Some e) st1
              | Inr resp \<Rightarrow>
                  if status_code resp \<noteq> 200
                  then Stop (Some (RuntimeError (''List executions failed ('' @ workflow_id
                         @ ''): '' @ show_nat (status_code resp) @ '' '' @ resp_text resp))) st1
                  else (case resp_json resp of
                          None \<Rightarrow> Stop (Some JSONDecodeError) st1
                        | Some data \<Rightarrow>
                     (case py_get data ''data'' JNull of
                        Inl e \<Rightarrow> Stop (Some e) st1
                      | Inr b1 \<Rightarrow>
                          let batch = py_or (py_or b1 (dict_get (case data of JObj d \<Rightarrow> d | _ \<Rightarrow> [])
                                         ''executions'' JNull)) (JArr [])
                          in (case py_iter batch of
                                Inl e \<Rightarrow> Stop (Some e) st1
                              | Inr items \<Rightarrow>
                                  let next_cursor = py_or (dict_get (case data of JObj d \<Rightarrow> d
                                                 | _ \<Rightarrow> []) ''nextCursor'' JNull) JNull;
                                      st2 = st1\<lparr>out := out st1 @ items,
                                              fetched := fetched st1 + int (length items),
                                              cursor := next_cursor,
                                              pages := pages st1 @
                                                [\<lparr>fetched_before = fetched st1,
                                                  batch_size = length items,
                                                  has_cursor = truthy next_cursor\<rparr>]\<rparr>
                                  in if \<not> truthy (cursor st2) \<or> \<not> truthy batch
                                     then Stop None st2 else Next st2)))))"

lemma fetch_page_Next_fetched:
  assumes "fetch_page request workflow_id limit st = Next st'"
  shows "fetched st < fetched st'"
proof -
  have nonempty: "items \<noteq> []" if "truthy batch" "py_iter batch = Inr items" for batch items
    using that by (cases batch) (auto simp: py_iter_def)
  show ?thesis
    using assms nonempty
    by (auto simp: fetch_page_def Let_def split: sum.splits if_splits json.splits
        option.splits prod.splits)
qed

function fetch_loop :: "'w requester \<Rightarrow> string \<Rightarrow> int \<Rightarrow> 'w fetch_state
    \<Rightarrow> pyexc option \<times> 'w fetch_state" where
  "fetch_loop request workflow_id limit st =
     (if fetched st < limit
      then (case fetch_page request workflow_id limit st of
              Stop r st' \<Rightarrow> (r, st')
            | Next st' \<Rightarrow> fetch_loop request workflow_id limit st')
      else (None, st))"
  by pat_completeness auto
termination
  by (relation "measure (\<lambda>(request, workflow_id, limit, st). nat (limit - fetched st))")
    (auto dest: fetch_page_Next_fetched)

text \<open>\<^verbatim>\<open>out[:limit]\<close>; a negative bound counts from the end.\<close>

definition py_slice_to :: "int \<Rightarrow> 'a list \<Rightarrow> 'a list" where
  "py_slice_to n xs = (if 0 \<le> n then take (nat n) xs else take (length xs - nat (- n)) xs)"

definition fetch_executions :: "'w requester \<Rightarrow> 'w \<Rightarrow> string \<Rightarrow> int
    \<Rightarrow> (pyexc + json list) \<times> 'w fetch_state" where
  "fetch_executions request w workflow_id limit =
     (case fetch_loop request workflow_id limit
             \<lparr>out = [], cursor = JNull, fetched = 0, world = w, requests = [],
               pages = []\<rparr> of
        (Some e, st) \<Rightarrow> (Inl e, st)
      | (None, st) \<Rightarrow> (Inr (py_slice_to limit (out st)), st))"

section \<open>Tracking one message\<close>

text \<open>
  \<^verbatim>\<open>track_message_status\<close>: fetch the executions, scan them, resolve. Next to the result
  the model returns what was fetched, what was scanned, and the listing requests made.
\<close>

record track_trace =
  result :: track_result
  fetched_executions :: "json list"
  scanned_executions :: "json list"
  listing_requests :: "fetch_request list"

definition track_message_status :: "builtins \<Rightarrow> 'w requester \<Rightarrow> 'w \<Rightarrow> string \<Rightarrow> string
    \<Rightarrow> string \<Rightarrow> int \<Rightarrow> int option \<Rightarrow> pyexc + track_trace" where
  "track_message_status B request w wa_id message_id workflow_id limit since =
     (case fetch_executions request w workflow_id limit of
        (Inl e, fs) \<Rightarrow> Inl e
      | (Inr executions, fs) \<Rightarrow>
          (case scan_executions B message_id wa_id since
                  \<lparr>all_statuses = [], found_terminal = False, scanned = []\<rparr> executions of
             Inl e \<Rightarrow> Inl e
           | Inr sc \<Rightarrow>
               (case resolve_statuses wa_id message_id workflow_id (all_statuses sc) of
                  Inl e \<Rightarrow> Inl e
                | Inr r \<Rightarrow>
                    Inr \<lparr>result = r, fetched_executions = executions,
                         scanned_executions = scanned sc,
                         listing_requests = requests fs\<rparr>)))"

section \<open>The HTTP request with retry\<close>

text \<open>What one call of \<^verbatim>\<open>session.request\<close> does: it raises, or it returns a response.\<close>

datatype outcome = Raises pyexc | Responds http_response

definition transient_codes :: "nat list" where
  "transient_codes = [429, 500, 502, 503, 504]"

text \<open>The \<^verbatim>\<open>try\<close> block: a response with a transient status code is turned into a
  \<^verbatim>\<open>RuntimeError\<close> carrying the code and the first 200 characters of the body.\<close>

definition attempt_result :: "outcome \<Rightarrow> pyexc + http_response" where
  "attempt_result oc =
     (case oc of
        Raises e \<Rightarrow> Inl e
      | Responds resp \<Rightarrow>
          if status_code resp \<in> set transient_codes
          then Inl (RuntimeError (''HTTP '' @ show_nat (status_code resp) @ '': ''
                 @ take 200 (resp_text resp)))
          else Inr resp)"

text \<open>
  The run of \<^verbatim>\<open>request_with_retry\<close>: what it returns or raises, the attempts it made, and
  the delays it slept, in order. \<open>send n\<close> is the outcome of the \<open>n\<close>-th call of
  \<^verbatim>\<open>session.request\<close>, \<open>rnd n\<close> the value \<^verbatim>\<open>random.random()\<close> gives after the \<open>n\<close>-th
  failure. Delays are exact rationals: 0.6 is 3/5 and 0.3 is 3/10.
\<close>

record retry_run =
  returned :: "pyexc + http_response"
  attempts :: "nat list"
  sleeps :: "rat list"

fun retry_loop :: "(nat \<Rightarrow> outcome) \<Rightarrow> (nat \<Rightarrow> rat) \<Rightarrow> nat \<Rightarrow> nat list \<Rightarrow> retry_run
    \<Rightarrow> retry_run" where
  "retry_loop send rnd max_retries [] run =
     run\<lparr>returned := Inl (RuntimeError ''unreachable'')\<rparr>"
| "retry_loop send rnd max_retries (attempt # rest) run =
     (let run1 = run\<lparr>attempts := attempts run @ [attempt]\<rparr> in
      case attempt_result (send attempt) of
        Inr resp \<Rightarrow> run1\<lparr>returned := Inr resp\<rparr>
      | Inl e \<Rightarrow>
          if attempt = max_retries then run1\<lparr>returned := Inl e\<rparr>
          else
            let backoff = 2 ^ (attempt - 1) * (3 / 5) + rnd attempt * (3 / 10)
            in retry_loop send rnd max_retries rest (run1\<lparr>sleeps := sleeps run1 @ [backoff]\<rparr>))"

definition request_with_retry :: "(nat \<Rightarrow> outcome) \<Rightarrow> (nat \<Rightarrow> rat) \<Rightarrow> nat \<Rightarrow> retry_run" where
  "request_with_retry send rnd max_retries =
     retry_loop send rnd max_retries [1..<max_retries + 1]
       \<lparr>returned = Inl (RuntimeError ''unreachable''), attempts = [], sleeps = []\<rparr>"

section \<open>Persisting the resolved state\<close>

text \<open>
  The message dictionary handed to \<^verbatim>\<open>save_messages_to_mongodb\<close>. Its latest status is a
  string: the sentinel, or a status that went through \<^verbatim>\<open>get_status_priority\<close>.
\<close>

record message_record =
  m_messageId :: string
  m_waId :: json
  m_latestStatus :: string
  m_latestTimestamp :: "int option"
  m_latestTimestampFormatted :: "string option"
  m_statusCount :: nat
  m_history :: "status_event list"

text \<open>
  A document of the collection, with the fields this code writes. \<open>latestTimestamp\<close> is
  always written, possibly as \<^verbatim>\<open>None\<close>; \<open>statusHistory\<close> is written only for a non-empty
  history. Times are instants on some clock.
\<close>

record status_doc =
  d_messageId :: string
  d_conversation_id :: json
  d_latestStatus :: string
  d_latestTimestamp :: "int option"
  d_latestTimestampFormatted :: "string option"
  d_statusCount :: nat
  d_workflowId :: string
  d_firstSeenAt :: nat
  d_lastUpdatedAt :: nat
  d_lastScannedAt :: nat
  d_statusHistory :: "status_event list option"

text \<open>The \<^verbatim>\<open>$set\<close> and \<^verbatim>\<open>$setOnInsert\<close> parts of the update of a changed message.\<close>

record changed_fields =
  c_conversation_id :: json
  c_latestStatus :: string
  c_latestTimestamp :: "int option"
  c_latestTimestampFormatted :: "string option"
  c_statusCount :: nat
  c_workflowId :: string
  c_lastUpdatedAt :: nat
  c_lastScannedAt :: nat
  c_statusHistory :: "status_event list option"
  c_firstSeenAt_on_insert :: nat

text \<open>The three \<^verbatim>\<open>UpdateOne\<close> operations, each filtered by \<open>messageId\<close>.\<close>

datatype update_op =
    UpdateChanged string changed_fields
  | UpdateScanTime string nat
  | InsertNew string status_doc

fun op_messageId :: "update_op \<Rightarrow> string" where
  "op_messageId (UpdateChanged k c) = k"
| "op_messageId (UpdateScanTime k t) = k"
| "op_messageId (InsertNew k d) = k"

text \<open>
  What the store does with an operation, given the document found under the filter:
  \<^verbatim>\<open>$set\<close> overwrites the named fields, \<^verbatim>\<open>$setOnInsert\<close> acts only when an upsert inserts,
  and without \<^verbatim>\<open>upsert\<close> a missing document stays missing.
\<close>

fun apply_update :: "update_op \<Rightarrow> status_doc option \<Rightarrow> status_doc option" where
  "apply_update (UpdateChanged k c) (Some d) =
     Some (d\<lparr>d_conversation_id := c_conversation_id c, d_latestStatus := c_latestStatus c,
             d_latestTimestamp := c_latestTimestamp c,
             d_latestTimestampFormatted := c_latestTimestampFormatted c,
             d_statusCount := c_statusCount c, d_workflowId := c_workflowId c,
             d_lastUpdatedAt := c_lastUpdatedAt c, d_lastScannedAt := c_lastScannedAt c,
             d_statusHistory := (case c_statusHistory c of
                                   Some h \<Rightarrow> Some h | None \<Rightarrow> d_statusHistory d)\<rparr>)"
| "apply_update (UpdateChanged k c) None =
     Some \<lparr>d_messageId = k, d_conversation_id = c_conversation_id c,
           d_latestStatus = c_latestStatus c, d_latestTimestamp = c_latestTimestamp c,
           d_latestTimestampFormatted = c_latestTimestampFormatted c,
           d_statusCount = c_statusCount c, d_workflowId = c_workflowId c,
           d_firstSeenAt = c_firstSeenAt_on_insert c, d_lastUpdatedAt = c_lastUpdatedAt c,
           d_lastScannedAt = c_lastScannedAt c, d_statusHistory = c_statusHistory c\<rparr>"
| "apply_update (UpdateScanTime k t) (Some d) = Some (d\<lparr>d_lastScannedAt := t\<rparr>)"
| "apply_update (UpdateScanTime k t) None = None"
| "apply_update (InsertNew k new) (Some d) = Some d"
| "apply_update (InsertNew k new) None = Some new"

text \<open>\<^verbatim>\<open>new_ts > existing_ts\<close>: integers compare, \<^verbatim>\<open>None\<close> on either side raises.\<close>

definition py_gt :: "int option \<Rightarrow> int option \<Rightarrow> pyexc + bool" where
  "py_gt a b =
     (case (a, b) of
        (Some x, Some y) \<Rightarrow> Inr (y < x)
      | _ \<Rightarrow> Inl TypeError)"

text \<open>
  The body of the loop over \<^verbatim>\<open>messages\<close>: the operation appended to \<^verbatim>\<open>updates\<close> for one
  message (none for a message without identifier), given what \<^verbatim>\<open>find_one\<close> returned.
\<close>

definition plan_update :: "nat \<Rightarrow> string \<Rightarrow> status_doc option \<Rightarrow> message_record
    \<Rightarrow> pyexc + update_op option" where
  "plan_update now workflow_id existing msg =
     (if m_messageId msg = [] then Inr None
      else case existing of
        Some ex \<Rightarrow>
          (case py_gt (m_latestTimestamp msg) (d_latestTimestamp ex) of
             Inl e \<Rightarrow> Inl e
           | Inr newer \<Rightarrow>
               if newer \<or> m_latestStatus msg \<noteq> d_latestStatus ex then
                 let c = \<lparr>c_conversation_id = m_waId msg, c_latestStatus = m_latestStatus msg,
                          c_latestTimestamp = m_latestTimestamp msg,
                          c_latestTimestampFormatted = m_latestTimestampFormatted msg,
                          c_statusCount = m_statusCount msg, c_workflowId = workflow_id,
                          c_lastUpdatedAt = now, c_lastScannedAt = now,
                          c_statusHistory = None,
                          c_firstSeenAt_on_insert = d_firstSeenAt ex\<rparr>
                 in if m_history msg \<noteq> [] then
                      (case deduplicate_history (m_history msg) of
                         Inl e \<Rightarrow> Inl e
                       | Inr dh \<Rightarrow>
                           Inr (Some (UpdateChanged (m_messageId msg)
                             (c\<lparr>c_statusHistory := Some dh, c_statusCount := length dh\<rparr>))))
                    else Inr (Some (UpdateChanged (m_messageId msg) c))
               else Inr (Some (UpdateScanTime (m_messageId msg) now)))
      | None \<Rightarrow>
          let doc = \<lparr>d_messageId = m_messageId msg, d_conversation_id = m_waId msg,
                     d_latestStatus = m_latestStatus msg,
                     d_latestTimestamp = m_latestTimestamp msg,
                     d_latestTimestampFormatted = m_latestTimestampFormatted msg,
                     d_statusCount = m_statusCount msg, d_workflowId = workflow_id,
                     d_firstSeenAt = now, d_lastUpdatedAt = now, d_lastScannedAt = now,
                     d_statusHistory = None\<rparr>
          in if m_history msg \<noteq> [] then
               (case deduplicate_history (m_history msg) of
                  Inl e \<Rightarrow> Inl e
                | Inr dh \<Rightarrow>
                    Inr (Some (InsertNew (m_messageId msg)
                      (doc\<lparr>d_statusHistory := Some dh, d_statusCount := length dh\<rparr>))))
             else Inr (Some (InsertNew (m_messageId msg) doc)))"

text \<open>The collection: at most one document per \<open>messageId\<close>.\<close>

type_synonym collection = "string \<Rightarrow> status_doc option"

fun plan_updates :: "nat \<Rightarrow> string \<Rightarrow> collection \<Rightarrow> message_record list
    \<Rightarrow> pyexc + update_op list" where
  "plan_updates now workflow_id coll [] = Inr []"
| "plan_updates now workflow_id coll (msg # msgs) =
     (case plan_update now workflow_id (coll (m_messageId msg)) msg of
        Inl e \<Rightarrow> Inl e
      | Inr u \<Rightarrow>
          (case plan_updates now workflow_id coll msgs of
             Inl e \<Rightarrow> Inl e
           | Inr us \<Rightarrow> Inr ((case u of None \<Rightarrow> [] | Some x \<Rightarrow> [x]) @ us)))"

definition bulk_write :: "update_op list \<Rightarrow> collection \<Rightarrow> collection" where
  "bulk_write updates coll =
     fold (\<lambda>u c. c(op_messageId u := apply_update u (c (op_messageId u)))) updates coll"

text \<open>
  \<^verbatim>\<open>save_messages_to_mongodb\<close> on a connected client: every document is looked up and
  every operation planned before anything is written; an exception on the way is
  caught, nothing is written and 0 is returned.
\<close>

definition save_messages_to_mongodb :: "nat \<Rightarrow> string \<Rightarrow> collection \<Rightarrow> message_record list
    \<Rightarrow> collection \<times> nat" where
  "save_messages_to_mongodb now workflow_id coll messages =
     (case plan_updates now workflow_id coll messages of
        Inl e \<Rightarrow> (coll, 0)
      | Inr updates \<Rightarrow>
          if updates = [] then (coll, 0)
          else (bulk_write updates coll, length updates))"

section \<open>Concrete inputs\<close>

text \<open>
  A listing endpoint that answers every request with the same page of two records and
  the same cursor, whatever it is asked.
\<close>

definition echo_server :: "unit requester" where
  "echo_server w req =
     (Inr \<lparr>status_code = 200, resp_text = [],
            resp_json = Some (JObj [(''data'', JArr [JObj [(''id'', JInt 1)],
                                                     JObj [(''id'', JInt 2)]]),
                                    (''nextCursor'', JStr ''abc'')])\<rparr>, w)"

text \<open>
  A transport on which the first attempt times out, the second is answered with 503 and
  every later one with 200; and one that always answers 503.
\<close>

definition flaky_send :: "nat \<Rightarrow> outcome" where
  "flaky_send n =
     (if n = 1 then Raises (TransportError ''timeout'')
      else if n = 2 then Responds \<lparr>status_code = 503, resp_text = ''busy'', resp_json = None\<rparr>
      else Responds \<lparr>status_code = 200, resp_text = ''ok'', resp_json = Some (JObj [])\<rparr>)"

definition down_send :: "nat \<Rightarrow> outcome" where
  "down_send n = Responds \<lparr>status_code = 503, resp_text = ''busy'', resp_json = None\<rparr>"

text \<open>
  An instance of the two built-ins for the examples: it agrees with Python on string and
  integer identifiers and on plain decimal numerals, which is all the examples contain.
\<close>

fun dec_digits :: "int \<Rightarrow> string \<Rightarrow> int option" where
  "dec_digits acc [] = Some acc"
| "dec_digits acc (c # cs) =
     (let n = (of_char c :: int) in
      if 48 \<le> n \<and> n \<le> 57 then dec_digits (10 * acc + (n - 48)) cs else None)"

definition dec_int :: "string \<Rightarrow> int option" where
  "dec_int s = (if s = [] then None else dec_digits 0 s)"

definition simple_builtins :: builtins where
  "simple_builtins =
     \<lparr>py_str = (\<lambda>j. case j of
                  JStr s \<Rightarrow> s
                | JInt i \<Rightarrow> (if i < 0 then ''-'' @ show_nat (nat (- i)) else show_nat (nat i))
                | _ \<Rightarrow> ''?''),
      py_int = dec_int\<rparr>"

text \<open>
  An execution as the workflow platform returns it: one node, one run, one output slot,
  one item whose webhook body carries the given status callbacks.
\<close>

definition status_callback :: "string \<Rightarrow> string \<Rightarrow> string \<Rightarrow> string \<Rightarrow> json" where
  "status_callback message_id st ts recipient =
     JObj [(''id'', JStr message_id), (''status'', JStr st), (''timestamp'', JStr ts),
           (''recipient_id'', JStr recipient)]"

definition webhook_execution :: "json \<Rightarrow> json list \<Rightarrow> json" where
  "webhook_execution ident callbacks =
     (let item = JObj [(''json'', JObj [(''body'', JObj [(''statuses'', JArr callbacks)])])];
          run = JObj [(''data'', JObj [(''main'', JArr [JArr [item]])])];
          run_data = JObj [(''Webhook'', JArr [run])]
      in JObj [(''id'', ident),
               (''data'', JObj [(''resultData'', JObj [(''runData'', run_data)])])])"

text \<open>A listing endpoint that returns the given executions in one page, with no cursor.\<close>

definition one_page_server :: "json list \<Rightarrow> unit requester" where
  "one_page_server executions w req =
     (Inr \<lparr>status_code = 200, resp_text = [],
            resp_json = Some (JObj [(''data'', JArr executions)])\<rparr>, w)"

definition execution_read :: json where
  "execution_read =
     webhook_execution (JInt 103) [status_callback ''wamid.A'' ''read'' ''1700000300'' ''966'']"

definition execution_delivered :: json where
  "execution_delivered =
     webhook_execution (JInt 102) [status_callback ''wamid.A'' ''delivered'' ''1700000200'' ''966'']"

definition execution_sent :: json where
  "execution_sent =
     webhook_execution (JInt 101) [status_callback ''wamid.A'' ''sent'' ''1700000100'' ''966'']"

fun is_arr :: "json \<Rightarrow> bool" where
  "is_arr (JArr xs) = True"
| "is_arr _ = False"

fun is_obj :: "json \<Rightarrow> bool" where
  "is_obj (JObj d) = True"
| "is_obj _ = False"

text \<open>
  The body of a webhook item as the specification words it: the value under \<^verbatim>\<open>body\<close>, or
  the item's JSON itself when there is none, and the first element when that value is a
  non-empty list.
\<close>

definition webhook_body :: "(string \<times> json) list \<Rightarrow> json" where
  "webhook_body j =
     (case py_or (dict_get j ''body'' JNull) (JObj j) of
        JArr (x # xs) \<Rightarrow> x
      | v \<Rightarrow> v)"

text \<open>The execution data: under \<^verbatim>\<open>data\<close>, or else under \<^verbatim>\<open>executionData\<close>.\<close>

definition execution_data :: "(string \<times> json) list \<Rightarrow> json" where
  "execution_data d = py_or (dict_get d ''data'' JNull) (dict_get d ''executionData'' JNull)"

text \<open>An execution that keeps its run data under \<^verbatim>\<open>executionData\<close>, with no result data.\<close>

definition execution_fallback_empty :: json where
  "execution_fallback_empty =
     JObj [(''id'', JInt 9), (''executionData'', JObj [(''resultData'', JNull)])]"

text \<open>An execution whose \<^verbatim>\<open>data\<close> is a string, and one whose run output \<^verbatim>\<open>main\<close> is a number.\<close>

definition execution_data_string :: json where
  "execution_data_string = JObj [(''id'', JInt 7), (''data'', JStr ''x'')]"

definition execution_main_number :: json where
  "execution_main_number =
     JObj [(''id'', JInt 8),
           (''data'', JObj [(''resultData'', JObj [(''runData'', JObj [(''Webhook'',
              JArr [JObj [(''data'', JObj [(''main'', JInt 5)])]])])])])]"

text \<open>
  Events, a resolved message and stored documents for the persistence examples. The two
  \<open>sent\<close> events agree on status, timestamp and execution and differ in the recipient.
\<close>

definition event_read :: status_event where
  "event_read =
     \<lparr>status = JStr ''read'', timestamp = Some 1700000300,
      timestampFormatted = Some ''2023-11-15 01:18'', recipient_id = JStr ''966'',
      executionId = ''103'', recipientMismatch = False\<rparr>"

definition event_sent :: status_event where
  "event_sent =
     \<lparr>status = JStr ''sent'', timestamp = Some 1700000100,
      timestampFormatted = Some ''2023-11-15 01:15'', recipient_id = JStr ''966'',
      executionId = ''101'', recipientMismatch = False\<rparr>"

definition event_sent_other :: status_event where
  "event_sent_other =
     \<lparr>status = JStr ''sent'', timestamp = Some 1700000100,
      timestampFormatted = Some ''2023-11-15 01:15'', recipient_id = JStr ''111'',
      executionId = ''101'', recipientMismatch = True\<rparr>"

definition message_read :: message_record where
  "message_read =
     \<lparr>m_messageId = ''wamid.A'', m_waId = JStr ''966'', m_latestStatus = ''read'',
      m_latestTimestamp = Some 1700000300,
      m_latestTimestampFormatted = Some ''2023-11-15 01:18'', m_statusCount = 3,
      m_history = [event_read, event_sent, event_sent_other]\<rparr>"

definition doc_sent :: status_doc where
  "doc_sent =
     \<lparr>d_messageId = ''wamid.A'', d_conversation_id = JStr ''966'', d_latestStatus = ''sent'',
      d_latestTimestamp = Some 1700000100,
      d_latestTimestampFormatted = Some ''2023-11-15 01:15'', d_statusCount = 1,
      d_workflowId = ''wf'', d_firstSeenAt = 10, d_lastUpdatedAt = 10, d_lastScannedAt = 10,
      d_statusHistory = Some [event_sent]\<rparr>"

definition doc_read :: status_doc where
  "doc_read =
     \<lparr>d_messageId = ''wamid.A'', d_conversation_id = JStr ''966'', d_latestStatus = ''read'',
      d_latestTimestamp = Some 1700000300,
      d_latestTimestampFormatted = Some ''2023-11-15 01:18'', d_statusCount = 1,
      d_workflowId = ''wf'', d_firstSeenAt = 10, d_lastUpdatedAt = 15, d_lastScannedAt = 15,
      d_statusHistory = Some [event_read]\<rparr>"

definition stored :: "status_doc \<Rightarrow> collection" where
  "stored d = (\<lambda>k. if k = d_messageId d then Some d else None)"


section \<open>Properties\<close>

lemma keyed_total:
  assumes "\<forall>x\<in>set xs. f x = Inr (k x)"
  shows "keyed f xs = Inr (map (\<lambda>x. (k x, x)) xs)"
  using assms by (induction xs) auto

lemma keyed_Inr_snd: "keyed f xs = Inr kxs \<Longrightarrow> map snd kxs = xs"
  by (induction xs arbitrary: kxs) (auto split: sum.splits)

lemma last_insort_key:
  assumes "sorted (map f zs)"
  shows "last (insort_key f x zs) = (if zs = [] \<or> f (last zs) < f x then x else last zs)"
  using assms
proof (induction zs)
  case Nil
  then show ?case by simp
next
  case (Cons a zs)
  show ?case
  proof (cases "f x \<le> f a")
    case True
    have "f a \<le> f (last (a # zs))"
      using Cons.prems by (cases zs) (auto simp: last_in_set)
    with True show ?thesis by auto
  next
    case False
    have "insort_key f x zs \<noteq> []" by (cases zs) auto
    with False Cons show ?thesis by auto
  qed
qed

lemma sorted_reverse_hd:
  assumes "xs \<noteq> []"
  shows "\<exists>ys e zs. xs = ys @ e # zs \<and> (\<forall>y\<in>set ys. k y < k e) \<and> (\<forall>z\<in>set zs. k z \<le> k e)
           \<and> hd (sorted_reverse (map (\<lambda>x. (k x, x)) xs)) = e"
  using assms
proof (induction xs rule: rev_induct)
  case Nil
  then show ?case by simp
next
  case (snoc x xs)
  let ?d = "\<lambda>xs. map (\<lambda>x. (k x, x)) xs"
  let ?S = "\<lambda>xs. sort_key fst (rev (?d xs))"
  have step: "?S (xs @ [x]) = insort_key fst (k x, x) (?S xs)"
    by simp
  have hd_last: "hd (sorted_reverse (?d us)) = snd (last (?S us))" if "us \<noteq> []" for us
  proof -
    have "length (?S us) \<noteq> 0" using that by simp
    then have ne: "?S us \<noteq> []" by (simp only: length_0_conv not_False_eq_True)
    then have "hd (map snd (rev (?S us))) = snd (hd (rev (?S us)))" by (simp add: hd_map)
    also have "\<dots> = snd (last (?S us))" using ne by (simp add: hd_rev)
    finally show ?thesis by (simp add: sorted_reverse_def)
  qed
  show ?case
  proof (cases "xs = []")
    case True
    have "hd (sorted_reverse (?d [x])) = x" by (simp add: sorted_reverse_def)
    with True show ?thesis by (intro exI[of _ "[]"] exI[of _ x]) auto
  next
    case False
    from snoc.IH[OF False] obtain ys e zs where
      xs: "xs = ys @ e # zs" and lt: "\<forall>y\<in>set ys. k y < k e" and le: "\<forall>z\<in>set zs. k z \<le> k e"
      and hd: "hd (sorted_reverse (?d xs)) = e" by blast
    have "length (?S xs) \<noteq> 0" using False by simp
    then have Sne: "?S xs \<noteq> []" by (simp only: length_0_conv not_False_eq_True)
    have laste: "snd (last (?S xs)) = e" using hd hd_last[OF False] by simp
    have lastin: "last (?S xs) \<in> set (?d xs)"
      using last_in_set[OF Sne] by (simp only: set_sort set_rev)
    then have fstlast: "fst (last (?S xs)) = k e" using laste by auto
    have "last (?S (xs @ [x])) = (if fst (last (?S xs)) < k x then (k x, x) else last (?S xs))"
      unfolding step using last_insort_key[of fst "?S xs" "(k x, x)"] Sne by simp
    then have new: "hd (sorted_reverse (?d (xs @ [x]))) = (if k e < k x then x else e)"
      using hd_last[of "xs @ [x]"] fstlast laste by simp
    show ?thesis
    proof (cases "k e < k x")
      case True
      have "\<forall>y\<in>set xs. k y < k x" using xs lt le True by auto
      with new True show ?thesis by (intro exI[of _ xs] exI[of _ x] exI[of _ "[]"]) auto
    next
      case False
      with new xs lt le show ?thesis
        by (intro exI[of _ ys] exI[of _ e] exI[of _ "zs @ [x]"]) auto
    qed
  qed
qed

lemma mset_sorted_reverse: "mset (sorted_reverse (map (\<lambda>x. (k x, x)) xs)) = mset xs"
proof -
  have "mset (map snd (rev (sort_key fst (rev (map (\<lambda>x. (k x, x)) xs))))) = image_mset snd (mset (map (\<lambda>x. (k x, x)) xs))"
    by (simp only: mset_map mset_rev mset_sort)
  then show ?thesis by (simp add: sorted_reverse_def multiset.map_comp comp_def)
qed

lemma dedup_by_inv:
  assumes "\<forall>e\<in>set xs. hashable e"
    and "seen = key ` set acc" and "distinct (map key acc)"
  shows "\<exists>ds. dedup_by hashable key seen acc xs = Inr (acc @ ds) \<and> subseq ds xs
          \<and> distinct (map key (acc @ ds))
          \<and> key ` set ds = key ` set xs - seen
          \<and> (\<forall>e\<in>set ds. \<exists>ys zs. xs = ys @ e # zs \<and> key e \<notin> seen \<union> key ` set ys)
          \<and> (\<forall>ys e zs. xs = ys @ e # zs \<and> key e \<notin> seen \<union> key ` set ys \<longrightarrow> e \<in> set ds)"
  using assms
proof (induction xs arbitrary: seen acc)
  case Nil
  then show ?case by simp
next
  case (Cons x xs)
  show ?case
  proof (cases "key x \<in> seen")
    case True
    from Cons.IH[of seen acc] Cons.prems obtain ds where
      ds: "dedup_by hashable key seen acc xs = Inr (acc @ ds)" "subseq ds xs"
        "distinct (map key (acc @ ds))"
        "key ` set ds = key ` set xs - seen"
        "\<forall>e\<in>set ds. \<exists>ys zs. xs = ys @ e # zs \<and> key e \<notin> seen \<union> key ` set ys"
        "\<forall>ys e zs. xs = ys @ e # zs \<and> key e \<notin> seen \<union> key ` set ys \<longrightarrow> e \<in> set ds"
      by auto
    have first: "\<forall>e\<in>set ds. \<exists>ys zs. x # xs = ys @ e # zs \<and> key e \<notin> seen \<union> key ` set ys"
    proof
      fix e assume "e \<in> set ds"
      with ds(5) obtain ys zs where "xs = ys @ e # zs" "key e \<notin> seen \<union> key ` set ys" by blast
      with True have "x # xs = (x # ys) @ e # zs \<and> key e \<notin> seen \<union> key ` set (x # ys)" by auto
      then show "\<exists>ys zs. x # xs = ys @ e # zs \<and> key e \<notin> seen \<union> key ` set ys" by blast
    qed
    have conv: "\<forall>ys e zs. x # xs = ys @ e # zs \<and> key e \<notin> seen \<union> key ` set ys \<longrightarrow> e \<in> set ds"
    proof (intro allI impI)
      fix ys e zs assume a: "x # xs = ys @ e # zs \<and> key e \<notin> seen \<union> key ` set ys"
      show "e \<in> set ds"
      proof (cases ys)
        case Nil
        with a True show ?thesis by simp
      next
        case (Cons y ys')
        with a have "xs = ys' @ e # zs \<and> key e \<notin> seen \<union> key ` set ys'" by auto
        with ds(6) show ?thesis by blast
      qed
    qed
    have "dedup_by hashable key seen acc (x # xs) = Inr (acc @ ds)"
      using ds(1) True Cons.prems(1) by simp
    moreover have "subseq ds (x # xs)" using ds(2) by (rule list_emb_Cons)
    moreover have "key ` set ds = key ` set (x # xs) - seen" using ds(4) True by auto
    ultimately show ?thesis using ds(3) first conv by blast
  next
    case False
    let ?seen = "insert (key x) seen"
    have "?seen = key ` set (acc @ [x])" using Cons.prems by auto
    moreover have "distinct (map key (acc @ [x]))" using Cons.prems False by auto
    ultimately obtain ds where
      ds: "dedup_by hashable key ?seen (acc @ [x]) xs = Inr ((acc @ [x]) @ ds)" "subseq ds xs"
        "distinct (map key ((acc @ [x]) @ ds))"
        "key ` set ds = key ` set xs - ?seen"
        "\<forall>e\<in>set ds. \<exists>ys zs. xs = ys @ e # zs \<and> key e \<notin> ?seen \<union> key ` set ys"
        "\<forall>ys e zs. xs = ys @ e # zs \<and> key e \<notin> ?seen \<union> key ` set ys \<longrightarrow> e \<in> set ds"
      using Cons.IH[of ?seen "acc @ [x]"] Cons.prems by auto
    have first: "\<forall>e\<in>set (x # ds). \<exists>ys zs. x # xs = ys @ e # zs \<and> key e \<notin> seen \<union> key ` set ys"
    proof
      fix e assume e: "e \<in> set (x # ds)"
      show "\<exists>ys zs. x # xs = ys @ e # zs \<and> key e \<notin> seen \<union> key ` set ys"
      proof (cases "e \<in> set ds")
        case True
        with ds(5) obtain ys zs where "xs = ys @ e # zs" "key e \<notin> ?seen \<union> key ` set ys" by blast
        then have "x # xs = (x # ys) @ e # zs \<and> key e \<notin> seen \<union> key ` set (x # ys)" by auto
        then show ?thesis by blast
      next
        case False
        with e have "e = x" by simp
        with \<open>key x \<notin> seen\<close> have "x # xs = [] @ e # xs \<and> key e \<notin> seen \<union> key ` set []" by simp
        then show ?thesis by blast
      qed
    qed
    have conv: "\<forall>ys e zs. x # xs = ys @ e # zs \<and> key e \<notin> seen \<union> key ` set ys \<longrightarrow> e \<in> set (x # ds)"
    proof (intro allI impI)
      fix ys e zs assume a: "x # xs = ys @ e # zs \<and> key e \<notin> seen \<union> key ` set ys"
      show "e \<in> set (x # ds)"
      proof (cases ys)
        case Nil
        with a show ?thesis by simp
      next
        case (Cons y ys')
        with a have "xs = ys' @ e # zs \<and> key e \<notin> ?seen \<union> key ` set ys'" by auto
        with ds(6) show ?thesis by auto
      qed
    qed
    have "dedup_by hashable key seen acc (x # xs) = Inr (acc @ (x # ds))"
      using ds(1) False Cons.prems(1) by simp
    moreover have "subseq (x # ds) (x # xs)" using ds(2) by simp
    moreover have "key ` set (x # ds) = key ` set (x # xs) - seen" using ds(4) False by auto
    moreover have "distinct (map key (acc @ (x # ds)))" using ds(3) by simp
    ultimately show ?thesis using first conv by blast
  qed
qed

lemma dedup_by_first_occurrences:
  assumes "\<forall>e\<in>set xs. hashable e"
  shows "\<exists>ds. dedup_by hashable key {} [] xs = Inr ds \<and> subseq ds xs
          \<and> distinct (map key ds)
          \<and> key ` set ds = key ` set xs
          \<and> (\<forall>e\<in>set ds. \<exists>ys zs. xs = ys @ e # zs \<and> key e \<notin> key ` set ys)
          \<and> (\<forall>ys e zs. xs = ys @ e # zs \<and> key e \<notin> key ` set ys \<longrightarrow> e \<in> set ds)"
  using dedup_by_inv[of xs hashable "{}" key "[]"] assms by simp

lemma dedup_by_unhashable:
  assumes "\<exists>e\<in>set xs. \<not> hashable e"
  shows "dedup_by hashable key seen acc xs = Inl TypeError"
  using assms by (induction xs arbitrary: seen acc) auto


lemma get_status_priority_str: "get_status_priority (JStr s) = Inr (spec_priority s)"
  unfolding get_status_priority_def spec_priority_def priority_map_def
  by (simp add: Let_def)

lemma latest_key_rank:
  assumes "status e = JStr s"
  shows "latest_key e = Inr (event_rank e)"
  using assms by (simp add: latest_key_def event_rank_def get_status_priority_str)

lemma determine_valid:
  assumes "filter (\<lambda>h. \<not> recipientMismatch h) h \<noteq> []"
    and "\<forall>e\<in>set (filter (\<lambda>h. \<not> recipientMismatch h) h). \<exists>s. status e = JStr s"
  shows "\<exists>ys e zs. filter (\<lambda>h. \<not> recipientMismatch h) h = ys @ e # zs
           \<and> (\<forall>y\<in>set ys. event_rank y < event_rank e)
           \<and> (\<forall>z\<in>set zs. event_rank z \<le> event_rank e)
           \<and> determine_latest_status h = Inr (status e, timestamp e)"
proof -
  let ?v = "filter (\<lambda>h. \<not> recipientMismatch h) h"
  have k: "keyed latest_key ?v = Inr (map (\<lambda>x. (event_rank x, x)) ?v)"
    by (rule keyed_total) (use assms(2) latest_key_rank in blast)
  have hne: "h \<noteq> []" using assms(1) by auto
  have nall: "\<not> list_all recipientMismatch h"
    using assms(1) by (auto simp: list_all_iff filter_empty_conv)
  have d: "determine_latest_status h =
      Inr (status (hd (sorted_reverse (map (\<lambda>x. (event_rank x, x)) ?v))),
           timestamp (hd (sorted_reverse (map (\<lambda>x. (event_rank x, x)) ?v))))"
    using hne nall assms(1) k by (simp add: determine_latest_status_def Let_def)
  from sorted_reverse_hd[OF assms(1), of event_rank] obtain ys e zs where
    "?v = ys @ e # zs" "\<forall>y\<in>set ys. event_rank y < event_rank e"
    "\<forall>z\<in>set zs. event_rank z \<le> event_rank e"
    "hd (sorted_reverse (map (\<lambda>x. (event_rank x, x)) ?v)) = e" by blast
  with d show ?thesis by (intro exI[of _ ys] exI[of _ e] exI[of _ zs]) simp
qed

lemma positive_outranks_absent:
  assumes "timestamp a = Some t" "0 < t" "timestamp b = None"
  shows "event_rank b < event_rank a"
  using assms by (simp add: event_rank_def ts_or_0_def)


lemma set_sorted_reverse: "set (sorted_reverse (map (\<lambda>x. (k x, x)) xs)) = set xs"
  using mset_sorted_reverse[of k xs] by (metis set_mset_mset)

lemma keyed_Inr_keys:
  "keyed f ys = Inr ks \<Longrightarrow> (a, b) \<in> set ks \<Longrightarrow> f b = Inr a"
  by (induction ys arbitrary: ks) (auto split: sum.splits)

lemma keyed_Inr_decorated:
  "keyed f xs = Inr kxs \<Longrightarrow> \<exists>k. kxs = map (\<lambda>x. (k x, x)) xs"
proof (induction xs arbitrary: kxs)
  case Nil
  then show ?case by simp
next
  case (Cons x xs)
  from Cons.prems obtain kx r where kx: "f x = Inr kx" and r: "keyed f xs = Inr r"
    and kxs: "kxs = (kx, x) # r" by (auto split: sum.splits)
  from Cons.IH[OF r] obtain k where k: "r = map (\<lambda>x. (k x, x)) xs" by blast
  show ?case
  proof (cases "x \<in> set xs")
    case False
    then have "kxs = map (\<lambda>y. ((k(x := kx)) y, y)) (x # xs)" using kxs k by auto
    then show ?thesis by blast
  next
    case True
    then have "(k x, x) \<in> set r" using k by auto
    from keyed_Inr_keys[OF r this] kx have "kx = k x" by simp
    with kxs k show ?thesis by auto
  qed
qed

lemma determine_from_valid:
  assumes "determine_latest_status h = Inr (st, ts)" and "\<not> list_all recipientMismatch h"
  shows "\<exists>e\<in>set h. \<not> recipientMismatch e \<and> st = status e \<and> ts = timestamp e"
proof -
  let ?v = "filter (\<lambda>h. \<not> recipientMismatch h) h"
  have vne: "?v \<noteq> []" using assms(2) by (auto simp: list_all_iff filter_empty_conv)
  have hne: "h \<noteq> []" using vne by auto
  from assms hne vne obtain kxs where k: "keyed latest_key ?v = Inr kxs"
    and r: "st = status (hd (sorted_reverse kxs))" "ts = timestamp (hd (sorted_reverse kxs))"
    by (auto simp: determine_latest_status_def Let_def split: sum.splits)
  from keyed_Inr_decorated[OF k] obtain kf where kxs: "kxs = map (\<lambda>x. (kf x, x)) ?v" by blast
  have "set (sorted_reverse kxs) = set ?v" unfolding kxs by (rule set_sorted_reverse)
  moreover have "sorted_reverse kxs \<noteq> []" using calculation vne by auto
  ultimately have "hd (sorted_reverse kxs) \<in> set ?v" using hd_in_set by blast
  with r show ?thesis by auto
qed

lemma determine_ignores_mismatched:
  assumes "\<not> list_all recipientMismatch h"
  shows "determine_latest_status h = determine_latest_status (filter (\<lambda>e. \<not> recipientMismatch e) h)"
proof -
  let ?v = "filter (\<lambda>h. \<not> recipientMismatch h) h"
  have vne: "?v \<noteq> []" using assms by (auto simp: list_all_iff filter_empty_conv)
  have hne: "h \<noteq> []" using vne by auto
  have nall: "\<not> list_all recipientMismatch ?v" using vne by (cases ?v) (auto simp: list_all_iff filter_eq_Cons_iff)
  have idem: "filter (\<lambda>h. \<not> recipientMismatch h) ?v = ?v" by simp
  show ?thesis
    unfolding determine_latest_status_def[of h] determine_latest_status_def[of ?v] idem
    using vne hne nall assms by (simp add: Let_def)
qed

lemma determine_all_mismatched:
  assumes "h \<noteq> []" "list_all recipientMismatch h"
  shows "determine_latest_status h = Inr (JStr ''wa_id_mismatch'', timestamp (hd h))"
  using assms by (simp add: determine_latest_status_def)

lemma track_history_sound:
  assumes "\<forall>e\<in>set xs. py_hashable (status e) \<and> py_hashable (recipient_id e)"
  shows "\<exists>ds hs. dedup_statuses xs = Inr ds \<and> track_history xs = Inr hs \<and> subseq ds xs
          \<and> distinct (map unique_key ds) \<and> unique_key ` set ds = unique_key ` set xs
          \<and> (\<forall>e\<in>set ds. \<exists>ys zs. xs = ys @ e # zs \<and> unique_key e \<notin> unique_key ` set ys)
          \<and> (\<forall>ys e zs. xs = ys @ e # zs \<and> unique_key e \<notin> unique_key ` set ys \<longrightarrow> e \<in> set ds)
          \<and> mset hs = mset ds"
proof -
  from dedup_by_first_occurrences[of xs "\<lambda>s. py_hashable (status s) \<and> py_hashable (recipient_id s)" unique_key]
    assms
  obtain ds where ds: "dedup_statuses xs = Inr ds" "subseq ds xs" "distinct (map unique_key ds)"
      "unique_key ` set ds = unique_key ` set xs"
      "\<forall>e\<in>set ds. \<exists>ys zs. xs = ys @ e # zs \<and> unique_key e \<notin> unique_key ` set ys"
      "\<forall>ys e zs. xs = ys @ e # zs \<and> unique_key e \<notin> unique_key ` set ys \<longrightarrow> e \<in> set ds"
    unfolding dedup_statuses_def by blast
  let ?hs = "sorted_reverse (map (\<lambda>x. (ts_or_0 (timestamp x), x)) ds)"
  have "track_history xs = Inr ?hs" using ds(1) by (simp add: track_history_def)
  moreover have "mset ?hs = mset ds" by (rule mset_sorted_reverse)
  ultimately show ?thesis using ds by blast
qed

lemma typed_event_keys:
  assumes "typed_event e"
  shows "unique_key e = event_key e" "history_unique_key e = event_key3 e"
    "py_hashable (status e)" "py_hashable (recipient_id e)"
  using assms
  by (cases "status e"; cases "recipient_id e";
      simp add: typed_event_def unique_key_def event_key_def history_unique_key_def
        event_key3_def py_key_def py_hashable_def)+

lemma distinct_map_count:
  assumes "distinct (map k hs)" "k e \<in> k ` set hs"
  shows "length (filter (\<lambda>e'. k e' = k e) hs) = 1"
  using assms
proof (induction hs)
  case Nil
  then show ?case by simp
next
  case (Cons a hs)
  show ?case
  proof (cases "k a = k e")
    case True
    then have "filter (\<lambda>e'. k e' = k e) hs = []"
      using Cons.prems(1) by (auto simp: filter_empty_conv image_iff)
    with True show ?thesis by simp
  next
    case False
    with Cons show ?thesis by auto
  qed
qed

section \<open>Claims\<close>

text \<open>
  C1 (as amended). Whenever some event is not flagged as a recipient mismatch and the
  unflagged events carry string statuses, \<open>determine_latest_status\<close> returns the status
  and timestamp of an unflagged event whose pair (timestamp or 0, priority) is greatest
  in the lexicographic order, the first such event in input order; the priorities are
  failed = undelivered = 100, read = 50, delivered = 40, sent = 30, anything else 10,
  whatever the letter case. An event with a present, strictly positive timestamp
  outranks every event with an absent timestamp. The events sent at 100, delivered at
  200 and read at 150 resolve to delivered at 200.
\<close>

theorem determine_latest_status_greatest:
  assumes "filter (\<lambda>e. \<not> recipientMismatch e) h \<noteq> []"
    and "\<forall>e\<in>set (filter (\<lambda>e. \<not> recipientMismatch e) h). is_str (status e)"
  shows "(\<exists>ys e zs. filter (\<lambda>e. \<not> recipientMismatch e) h = ys @ e # zs
            \<and> (\<forall>y\<in>set ys. event_rank y < event_rank e)
            \<and> (\<forall>z\<in>set zs. event_rank z \<le> event_rank e)
            \<and> determine_latest_status h = Inr (status e, timestamp e))
       \<and> (\<forall>s. get_status_priority (JStr s) = Inr (spec_priority s))
       \<and> (\<forall>a b t. timestamp a = Some t \<and> 0 < t \<and> timestamp b = None
              \<longrightarrow> event_rank b < event_rank a)
       \<and> determine_latest_status
            [\<lparr>status = JStr ''sent'', timestamp = Some 100, timestampFormatted = None,
               recipient_id = JNull, executionId = ''1'', recipientMismatch = False\<rparr>,
             \<lparr>status = JStr ''delivered'', timestamp = Some 200, timestampFormatted = None,
               recipient_id = JNull, executionId = ''2'', recipientMismatch = False\<rparr>,
             \<lparr>status = JStr ''read'', timestamp = Some 150, timestampFormatted = None,
               recipient_id = JNull, executionId = ''3'', recipientMismatch = False\<rparr>]
           = Inr (JStr ''delivered'', Some 200)"
proof -
  have strs: "\<forall>e\<in>set (filter (\<lambda>e. \<not> recipientMismatch e) h). \<exists>s. status e = JStr s"
  proof
    fix e assume "e \<in> set (filter (\<lambda>e. \<not> recipientMismatch e) h)"
    with assms(2) have "is_str (status e)" by blast
    then show "\<exists>s. status e = JStr s" by (cases "status e") auto
  qed
  have ex: "determine_latest_status
            [\<lparr>status = JStr ''sent'', timestamp = Some 100, timestampFormatted = None,
               recipient_id = JNull, executionId = ''1'', recipientMismatch = False\<rparr>,
             \<lparr>status = JStr ''delivered'', timestamp = Some 200, timestampFormatted = None,
               recipient_id = JNull, executionId = ''2'', recipientMismatch = False\<rparr>,
             \<lparr>status = JStr ''read'', timestamp = Some 150, timestampFormatted = None,
               recipient_id = JNull, executionId = ''3'', recipientMismatch = False\<rparr>]
           = Inr (JStr ''delivered'', Some 200)"
    by code_simp
  show ?thesis
    using determine_valid[OF assms(1) strs] get_status_priority_str positive_outranks_absent ex
    by blast
qed

theorem determine_latest_status_greatest_witness:
  "filter (\<lambda>e. \<not> recipientMismatch e)
      [\<lparr>status = JInt 7, timestamp = Some 900, timestampFormatted = None,
         recipient_id = JStr ''x'', executionId = ''1'', recipientMismatch = True\<rparr>,
       \<lparr>status = JStr ''sent'', timestamp = Some 200, timestampFormatted = None,
         recipient_id = JNull, executionId = ''1'', recipientMismatch = False\<rparr>,
       \<lparr>status = JStr ''Delivered'', timestamp = Some 200, timestampFormatted = None,
         recipient_id = JNull, executionId = ''2'', recipientMismatch = False\<rparr>] \<noteq> []
   \<and> (\<exists>ys e zs. filter (\<lambda>e. \<not> recipientMismatch e)
      [\<lparr>status = JInt 7, timestamp = Some 900, timestampFormatted = None,
         recipient_id = JStr ''x'', executionId = ''1'', recipientMismatch = True\<rparr>,
       \<lparr>status = JStr ''sent'', timestamp = Some 200, timestampFormatted = None,
         recipient_id = JNull, executionId = ''1'', recipientMismatch = False\<rparr>,
       \<lparr>status = JStr ''Delivered'', timestamp = Some 200, timestampFormatted = None,
         recipient_id = JNull, executionId = ''2'', recipientMismatch = False\<rparr>] = ys @ e # zs
         \<and> (\<forall>y\<in>set ys. event_rank y < event_rank e)
         \<and> (\<forall>z\<in>set zs. event_rank z \<le> event_rank e)
         \<and> determine_latest_status
      [\<lparr>status = JInt 7, timestamp = Some 900, timestampFormatted = None,
         recipient_id = JStr ''x'', executionId = ''1'', recipientMismatch = True\<rparr>,
       \<lparr>status = JStr ''sent'', timestamp = Some 200, timestampFormatted = None,
         recipient_id = JNull, executionId = ''1'', recipientMismatch = False\<rparr>,
       \<lparr>status = JStr ''Delivered'', timestamp = Some 200, timestampFormatted = None,
         recipient_id = JNull, executionId = ''2'', recipientMismatch = False\<rparr>]
           = Inr (status e, timestamp e))
   \<and> determine_latest_status
      [\<lparr>status = JInt 7, timestamp = Some 900, timestampFormatted = None,
         recipient_id = JStr ''x'', executionId = ''1'', recipientMismatch = True\<rparr>,
       \<lparr>status = JStr ''sent'', timestamp = Some 200, timestampFormatted = None,
         recipient_id = JNull, executionId = ''1'', recipientMismatch = False\<rparr>,
       \<lparr>status = JStr ''Delivered'', timestamp = Some 200, timestampFormatted = None,
         recipient_id = JNull, executionId = ''2'', recipientMismatch = False\<rparr>]
       = Inr (JStr ''Delivered'', Some 200)"
proof -
  let ?h = "[\<lparr>status = JInt 7, timestamp = Some 900, timestampFormatted = None,
         recipient_id = JStr ''x'', executionId = ''1'', recipientMismatch = True\<rparr>,
       \<lparr>status = JStr ''sent'', timestamp = Some 200, timestampFormatted = None,
         recipient_id = JNull, executionId = ''1'', recipientMismatch = False\<rparr>,
       \<lparr>status = JStr ''Delivered'', timestamp = Some 200, timestampFormatted = None,
         recipient_id = JNull, executionId = ''2'', recipientMismatch = False\<rparr>]"
  have h1: "filter (\<lambda>e. \<not> recipientMismatch e) ?h \<noteq> []" by simp
  have h2: "\<forall>e\<in>set (filter (\<lambda>e. \<not> recipientMismatch e) ?h). is_str (status e)" by simp
  have v: "determine_latest_status ?h = Inr (JStr ''Delivered'', Some 200)" by code_simp
  from determine_latest_status_greatest[OF h1 h2] h1 v show ?thesis by blast
qed

text \<open>
  The claim as first stated fails: at equal priority an event whose timestamp is present
  but negative loses against an event with an absent timestamp, which ranks as 0.
\<close>

theorem present_timestamp_outranks_counterexample:
  "get_status_priority (JStr ''sent'') = get_status_priority (JStr ''SENT'')
   \<and> determine_latest_status
      [\<lparr>status = JStr ''sent'', timestamp = Some (- 5), timestampFormatted = None,
         recipient_id = JNull, executionId = ''1'', recipientMismatch = False\<rparr>,
       \<lparr>status = JStr ''SENT'', timestamp = None, timestampFormatted = None,
         recipient_id = JNull, executionId = ''2'', recipientMismatch = False\<rparr>]
     = Inr (JStr ''SENT'', None)"
  by code_simp

text \<open>
  C2. On events of the data model (string status, recipient a string or absent) the
  deduplication of \<open>track_message_status\<close> returns, and keeps exactly the first
  occurrence of each key (status, timestamp, recipient_id, executionId): the kept list
  is a subsequence of the input, its keys are pairwise different and are all the keys of
  the input, and an event is kept exactly when no earlier event has its key. The
  history, the kept list sorted by timestamp, holds the same events; so no two of its
  events share a key and every key of the input occurs in it exactly once.
\<close>

theorem track_dedup_first_occurrence:
  assumes "\<forall>e\<in>set xs. typed_event e"
  shows "\<exists>ds hs. dedup_statuses xs = Inr ds \<and> track_history xs = Inr hs
          \<and> subseq ds xs
          \<and> distinct (map event_key ds)
          \<and> event_key ` set ds = event_key ` set xs
          \<and> (\<forall>e\<in>set ds. \<exists>ys zs. xs = ys @ e # zs \<and> event_key e \<notin> event_key ` set ys)
          \<and> (\<forall>ys e zs. xs = ys @ e # zs \<and> event_key e \<notin> event_key ` set ys \<longrightarrow> e \<in> set ds)
          \<and> mset hs = mset ds
          \<and> distinct (map event_key hs)
          \<and> (\<forall>e\<in>set xs. length (filter (\<lambda>e'. event_key e' = event_key e) hs) = 1)"
proof -
  have keq: "unique_key e = event_key e" if "e \<in> set xs" for e
    using that assms typed_event_keys(1) by blast
  have hashable: "\<forall>e\<in>set xs. py_hashable (status e) \<and> py_hashable (recipient_id e)"
    using assms typed_event_keys(3,4) by blast
  from track_history_sound[OF hashable] obtain ds hs where
    ds: "dedup_statuses xs = Inr ds" "track_history xs = Inr hs" "subseq ds xs"
      "distinct (map unique_key ds)" "unique_key ` set ds = unique_key ` set xs"
      "\<forall>e\<in>set ds. \<exists>ys zs. xs = ys @ e # zs \<and> unique_key e \<notin> unique_key ` set ys"
      "\<forall>ys e zs. xs = ys @ e # zs \<and> unique_key e \<notin> unique_key ` set ys \<longrightarrow> e \<in> set ds"
      "mset hs = mset ds"
    by blast
  have sub: "set ds \<subseteq> set xs" using ds(3) by (auto dest: list_emb_set)
  have img: "unique_key ` set ys = event_key ` set ys" if "set ys \<subseteq> set xs" for ys
    using that keq by (auto simp: image_iff subset_iff)
  have mapeq: "map unique_key ds = map event_key ds" using sub keq by auto
  have d1: "distinct (map event_key ds)" using ds(4) mapeq by simp
  have d2: "event_key ` set ds = event_key ` set xs"
    using ds(5) img[OF sub] img[of xs] by simp
  have d3: "\<forall>e\<in>set ds. \<exists>ys zs. xs = ys @ e # zs \<and> event_key e \<notin> event_key ` set ys"
  proof
    fix e assume e: "e \<in> set ds"
    with ds(6) obtain ys zs where y: "xs = ys @ e # zs" "unique_key e \<notin> unique_key ` set ys"
      by blast
    have "set ys \<subseteq> set xs" using y(1) by auto
    from img[OF this] y(2) keq[of e] e sub have "event_key e \<notin> event_key ` set ys" by auto
    with y(1) show "\<exists>ys zs. xs = ys @ e # zs \<and> event_key e \<notin> event_key ` set ys" by blast
  qed
  have d4: "\<forall>ys e zs. xs = ys @ e # zs \<and> event_key e \<notin> event_key ` set ys \<longrightarrow> e \<in> set ds"
  proof (intro allI impI)
    fix ys e zs assume a: "xs = ys @ e # zs \<and> event_key e \<notin> event_key ` set ys"
    then have "set ys \<subseteq> set xs" "e \<in> set xs" by auto
    from img[OF this(1)] keq[OF this(2)] a
    have "xs = ys @ e # zs \<and> unique_key e \<notin> unique_key ` set ys" by simp
    with ds(7) show "e \<in> set ds" by blast
  qed
  have "mset (map event_key hs) = mset (map event_key ds)" using ds(8) by simp
  then have d5: "distinct (map event_key hs)"
    using d1 by (metis mset_eq_imp_distinct_iff)
  have sets: "set hs = set ds" using ds(8) by (metis set_mset_mset)
  have d6: "\<forall>e\<in>set xs. length (filter (\<lambda>e'. event_key e' = event_key e) hs) = 1"
  proof
    fix e assume "e \<in> set xs"
    then have "event_key e \<in> event_key ` set hs" using d2 sets by auto
    with d5 show "length (filter (\<lambda>e'. event_key e' = event_key e) hs) = 1"
      by (rule distinct_map_count)
  qed
  show ?thesis using ds(1,2,3,8) d1 d2 d3 d4 d5 d6 by blast
qed

theorem track_dedup_first_occurrence_witness:
  "list_all typed_event
              [\<lparr>status = JStr ''sent'', timestamp = Some 100, timestampFormatted = None,
                 recipient_id = JStr ''966'', executionId = ''7'', recipientMismatch = False\<rparr>,
               \<lparr>status = JStr ''read'', timestamp = Some 300, timestampFormatted = None,
                 recipient_id = JStr ''966'', executionId = ''8'', recipientMismatch = False\<rparr>,
               \<lparr>status = JStr ''sent'', timestamp = Some 100, timestampFormatted = None,
                 recipient_id = JStr ''966'', executionId = ''7'', recipientMismatch = False\<rparr>]
   \<and> track_history
        [\<lparr>status = JStr ''sent'', timestamp = Some 100, timestampFormatted = None,
           recipient_id = JStr ''966'', executionId = ''7'', recipientMismatch = False\<rparr>,
         \<lparr>status = JStr ''read'', timestamp = Some 300, timestampFormatted = None,
           recipient_id = JStr ''966'', executionId = ''8'', recipientMismatch = False\<rparr>,
         \<lparr>status = JStr ''sent'', timestamp = Some 100, timestampFormatted = None,
           recipient_id = JStr ''966'', executionId = ''7'', recipientMismatch = False\<rparr>]
      = Inr [\<lparr>status = JStr ''read'', timestamp = Some 300, timestampFormatted = None,
               recipient_id = JStr ''966'', executionId = ''8'', recipientMismatch = False\<rparr>,
             \<lparr>status = JStr ''sent'', timestamp = Some 100, timestampFormatted = None,
               recipient_id = JStr ''966'', executionId = ''7'', recipientMismatch = False\<rparr>]
   \<and> (\<exists>hs. track_history
        [\<lparr>status = JStr ''sent'', timestamp = Some 100, timestampFormatted = None,
           recipient_id = JStr ''966'', executionId = ''7'', recipientMismatch = False\<rparr>,
         \<lparr>status = JStr ''read'', timestamp = Some 300, timestampFormatted = None,
           recipient_id = JStr ''966'', executionId = ''8'', recipientMismatch = False\<rparr>,
         \<lparr>status = JStr ''sent'', timestamp = Some 100, timestampFormatted = None,
           recipient_id = JStr ''966'', executionId = ''7'', recipientMismatch = False\<rparr>]
        = Inr hs \<and> distinct (map event_key hs))"
proof -
  let ?xs = "[\<lparr>status = JStr ''sent'', timestamp = Some 100, timestampFormatted = None,
                 recipient_id = JStr ''966'', executionId = ''7'', recipientMismatch = False\<rparr>,
               \<lparr>status = JStr ''read'', timestamp = Some 300, timestampFormatted = None,
                 recipient_id = JStr ''966'', executionId = ''8'', recipientMismatch = False\<rparr>,
               \<lparr>status = JStr ''sent'', timestamp = Some 100, timestampFormatted = None,
                 recipient_id = JStr ''966'', executionId = ''7'', recipientMismatch = False\<rparr>]"
  have h: "\<forall>e\<in>set ?xs. typed_event e" by (simp add: typed_event_def)
  have v: "track_history ?xs
      = Inr [\<lparr>status = JStr ''read'', timestamp = Some 300, timestampFormatted = None,
               recipient_id = JStr ''966'', executionId = ''8'', recipientMismatch = False\<rparr>,
             \<lparr>status = JStr ''sent'', timestamp = Some 100, timestampFormatted = None,
               recipient_id = JStr ''966'', executionId = ''7'', recipientMismatch = False\<rparr>]"
    by code_simp
  from track_dedup_first_occurrence[OF h] obtain hs where
    "track_history ?xs = Inr hs" "distinct (map event_key hs)" by blast
  with h v show ?thesis by (simp only: list_all_iff) blast
qed

text \<open>
  C3. For a non-empty list of events: when every event is flagged as a recipient
  mismatch, \<open>determine_latest_status\<close> returns the sentinel \<open>wa_id_mismatch\<close> with the
  timestamp of the first event of the list; otherwise its result is the one it gives on
  the unflagged events alone, and a returned status and timestamp are those of an
  unflagged event. The flagged events stay in the history of the tracked result: an
  event that no earlier event duplicates is in it, flagged or not.
\<close>

theorem recipient_mismatch_policy:
  assumes "h \<noteq> []"
  shows "(list_all recipientMismatch h \<longrightarrow>
            determine_latest_status h = Inr (JStr ''wa_id_mismatch'', timestamp (hd h)))
       \<and> (\<not> list_all recipientMismatch h \<longrightarrow>
            determine_latest_status h
              = determine_latest_status (filter (\<lambda>e. \<not> recipientMismatch e) h)
            \<and> (\<forall>st ts. determine_latest_status h = Inr (st, ts) \<longrightarrow>
                  (\<exists>e\<in>set h. \<not> recipientMismatch e \<and> st = status e \<and> ts = timestamp e)))
       \<and> (\<forall>r. resolve_statuses w m f h = Inr r \<longrightarrow>
            (\<forall>ys e zs. h = ys @ e # zs \<and> recipientMismatch e
                 \<and> unique_key e \<notin> unique_key ` set ys \<longrightarrow> e \<in> set (history r)))"
proof -
  have a: "list_all recipientMismatch h \<longrightarrow>
            determine_latest_status h = Inr (JStr ''wa_id_mismatch'', timestamp (hd h))"
    using determine_all_mismatched[OF assms] by blast
  have b: "\<not> list_all recipientMismatch h \<longrightarrow>
            determine_latest_status h
              = determine_latest_status (filter (\<lambda>e. \<not> recipientMismatch e) h)
            \<and> (\<forall>st ts. determine_latest_status h = Inr (st, ts) \<longrightarrow>
                  (\<exists>e\<in>set h. \<not> recipientMismatch e \<and> st = status e \<and> ts = timestamp e))"
    using determine_ignores_mismatched determine_from_valid by blast
  have c: "\<forall>r. resolve_statuses w m f h = Inr r \<longrightarrow>
            (\<forall>ys e zs. h = ys @ e # zs \<and> recipientMismatch e
                 \<and> unique_key e \<notin> unique_key ` set ys \<longrightarrow> e \<in> set (history r))"
  proof (intro allI impI)
    fix r ys e zs
    assume r: "resolve_statuses w m f h = Inr r"
      and e: "h = ys @ e # zs \<and> recipientMismatch e \<and> unique_key e \<notin> unique_key ` set ys"
    from r obtain hs where hs: "track_history h = Inr hs" "history r = hs"
      by (auto simp: resolve_statuses_def split: sum.splits prod.splits)
    have hashable: "\<forall>e\<in>set h. py_hashable (status e) \<and> py_hashable (recipient_id e)"
    proof (rule ccontr)
      assume "\<not> ?thesis"
      then have "dedup_statuses h = Inl TypeError"
        unfolding dedup_statuses_def by (intro dedup_by_unhashable) blast
      with hs(1) show False by (simp add: track_history_def)
    qed
    from track_history_sound[OF hashable] hs(1) obtain ds where
      "\<forall>ys e zs. h = ys @ e # zs \<and> unique_key e \<notin> unique_key ` set ys \<longrightarrow> e \<in> set ds"
      "mset hs = mset ds" by auto
    with e have "e \<in> set ds" "set hs = set ds" by (blast, metis set_mset_mset)
    with hs(2) show "e \<in> set (history r)" by simp
  qed
  show ?thesis using a b c by blast
qed

theorem recipient_mismatch_policy_witness:
  "[\<lparr>status = JStr ''read'', timestamp = Some 500, timestampFormatted = Some ''1970-01-01 03:08'',
      recipient_id = JStr ''111'', executionId = ''9'', recipientMismatch = True\<rparr>,
    \<lparr>status = JStr ''sent'', timestamp = Some 100, timestampFormatted = Some ''1970-01-01 03:01'',
      recipient_id = JStr ''966'', executionId = ''7'', recipientMismatch = False\<rparr>] \<noteq> []
   \<and> resolve_statuses ''966'' ''wamid.1'' ''wf''
       [\<lparr>status = JStr ''read'', timestamp = Some 500, timestampFormatted = Some ''1970-01-01 03:08'',
          recipient_id = JStr ''111'', executionId = ''9'', recipientMismatch = True\<rparr>,
        \<lparr>status = JStr ''sent'', timestamp = Some 100, timestampFormatted = Some ''1970-01-01 03:01'',
          recipient_id = JStr ''966'', executionId = ''7'', recipientMismatch = False\<rparr>]
     = Inr \<lparr>waId = ''966'', messageId = ''wamid.1'', workflowId = ''wf'',
            latestStatus = JStr ''sent'', latestTimestamp = Some 100,
            latestTimestampFormatted = Some ''1970-01-01 03:01'',
            history =
              [\<lparr>status = JStr ''read'', timestamp = Some 500,
                  timestampFormatted = Some ''1970-01-01 03:08'',
                  recipient_id = JStr ''111'', executionId = ''9'', recipientMismatch = True\<rparr>,
               \<lparr>status = JStr ''sent'', timestamp = Some 100,
                  timestampFormatted = Some ''1970-01-01 03:01'',
                  recipient_id = JStr ''966'', executionId = ''7'', recipientMismatch = False\<rparr>],
            foundInExecutionsCount = 2\<rparr>
   \<and> determine_latest_status
       [\<lparr>status = JStr ''read'', timestamp = Some 500, timestampFormatted = Some ''1970-01-01 03:08'',
          recipient_id = JStr ''111'', executionId = ''9'', recipientMismatch = True\<rparr>,
        \<lparr>status = JStr ''sent'', timestamp = Some 100, timestampFormatted = Some ''1970-01-01 03:01'',
          recipient_id = JStr ''966'', executionId = ''7'', recipientMismatch = False\<rparr>]
     = determine_latest_status
       (filter (\<lambda>e. \<not> recipientMismatch e)
       [\<lparr>status = JStr ''read'', timestamp = Some 500, timestampFormatted = Some ''1970-01-01 03:08'',
          recipient_id = JStr ''111'', executionId = ''9'', recipientMismatch = True\<rparr>,
        \<lparr>status = JStr ''sent'', timestamp = Some 100, timestampFormatted = Some ''1970-01-01 03:01'',
          recipient_id = JStr ''966'', executionId = ''7'', recipientMismatch = False\<rparr>])
   \<and> determine_latest_status
       [\<lparr>status = JStr ''read'', timestamp = Some 500, timestampFormatted = Some ''1970-01-01 03:08'',
          recipient_id = JStr ''111'', executionId = ''9'', recipientMismatch = True\<rparr>]
     = Inr (JStr ''wa_id_mismatch'', Some 500)"
proof -
  let ?m = "\<lparr>status = JStr ''read'', timestamp = Some 500, timestampFormatted = Some ''1970-01-01 03:08'',
      recipient_id = JStr ''111'', executionId = ''9'', recipientMismatch = True\<rparr>"
  let ?v = "\<lparr>status = JStr ''sent'', timestamp = Some 100, timestampFormatted = Some ''1970-01-01 03:01'',
      recipient_id = JStr ''966'', executionId = ''7'', recipientMismatch = False\<rparr>"
  have ne: "[?m, ?v] \<noteq> []" "[?m] \<noteq> []" by simp_all
  have r: "resolve_statuses ''966'' ''wamid.1'' ''wf'' [?m, ?v]
     = Inr \<lparr>waId = ''966'', messageId = ''wamid.1'', workflowId = ''wf'',
            latestStatus = JStr ''sent'', latestTimestamp = Some 100,
            latestTimestampFormatted = Some ''1970-01-01 03:01'',
            history = [?m, ?v], foundInExecutionsCount = 2\<rparr>"
    by code_simp
  have "\<not> list_all recipientMismatch [?m, ?v]" by simp
  with recipient_mismatch_policy[OF ne(1)]
  have two: "determine_latest_status [?m, ?v]
     = determine_latest_status (filter (\<lambda>e. \<not> recipientMismatch e) [?m, ?v])" by blast
  have "list_all recipientMismatch [?m]" by simp
  with recipient_mismatch_policy[OF ne(2)]
  have "determine_latest_status [?m] = Inr (JStr ''wa_id_mismatch'', timestamp (hd [?m]))"
    by blast
  then have one: "determine_latest_status [?m] = Inr (JStr ''wa_id_mismatch'', Some 500)"
    by simp
  show ?thesis using ne(1) r two one by blast
qed

lemma fetch_page_Next:
  assumes "fetch_page request workflow_id limit st = Next st'"
  shows "\<exists>req n. requests st' = requests st @ [req] \<and> 0 < n
          \<and> pages st' = pages st @ [\<lparr>fetched_before = fetched st, batch_size = n, has_cursor = True\<rparr>]
          \<and> fetched st' = fetched st + int n \<and> length (out st') = length (out st) + n"
proof -
  have nonempty: "items \<noteq> []" if "truthy batch" "py_iter batch = Inr items" for batch items
    using that by (cases batch) (auto simp: py_iter_def)
  show ?thesis
    using assms nonempty
    by (auto simp: fetch_page_def Let_def split: sum.splits if_splits json.splits
        option.splits prod.splits)
qed

lemma fetch_page_Stop:
  assumes "fetch_page request workflow_id limit st = Stop r st'"
  shows "length (requests st') \<le> length (requests st) + 1
       \<and> (pages st' = pages st
          \<or> (\<exists>n c. pages st' = pages st @ [\<lparr>fetched_before = fetched st, batch_size = n, has_cursor = c\<rparr>]))
       \<and> length (pages st') - length (pages st) \<le> length (requests st') - length (requests st)"
  using assms
  by (auto simp: fetch_page_def Let_def split: sum.splits if_splits json.splits
      option.splits prod.splits)

lemma fetch_page_Stop_mono:
  assumes "fetch_page request workflow_id limit st = Stop r st'"
  shows "length (requests st) \<le> length (requests st')"
  using assms
  by (auto simp: fetch_page_def Let_def split: sum.splits if_splits json.splits
      option.splits prod.splits)

lemma fetch_loop_requests_mono:
  assumes "fetch_loop rq wid l s = (r, s')"
  shows "length (requests s) \<le> length (requests s')"
  using assms
proof (induction rq wid l s arbitrary: r s' rule: fetch_loop.induct)
  case (1 rq wid l s)
  show ?case
  proof (cases "fetched s < l")
    case False
    with "1.prems" show ?thesis by (simp add: fetch_loop.simps[of _ _ _ s])
  next
    case True
    show ?thesis
    proof (cases "fetch_page rq wid l s")
      case (Stop r0 s0)
      with True "1.prems" have "s' = s0" by (simp add: fetch_loop.simps[of _ _ _ s])
      with fetch_page_Stop_mono[OF Stop] show ?thesis by simp
    next
      case (Next s1)
      with True "1.prems" have "fetch_loop rq wid l s1 = (r, s')"
        by (simp add: fetch_loop.simps[of _ _ _ s])
      from "1.IH"[OF True Next this] fetch_page_Next[OF Next] show ?thesis by auto
    qed
  qed
qed

lemma fetch_loop_inv:
  assumes "fetch_loop request workflow_id limit s = (r, s')"
  shows "length (requests s') \<le> length (requests s) + nat (limit - fetched s)
       \<and> (\<exists>new. pages s' = pages s @ new
             \<and> (\<forall>p\<in>set new. fetched_before p < limit)
             \<and> (\<forall>i. Suc i < length new \<longrightarrow> has_cursor (new ! i) \<and> 0 < batch_size (new ! i))
             \<and> length new \<le> length (requests s') - length (requests s))"
  using assms
proof (induction request workflow_id limit s arbitrary: r s' rule: fetch_loop.induct)
  case (1 request workflow_id limit st)
  show ?case
  proof (cases "fetched st < limit")
    case False
    with "1.prems" have "s' = st" by (simp add: fetch_loop.simps[of _ _ _ st])
    with False show ?thesis by simp
  next
    case True
    show ?thesis
    proof (cases "fetch_page request workflow_id limit st")
      case (Stop r0 st0)
      with True "1.prems" have eq: "s' = st0" by (simp add: fetch_loop.simps[of _ _ _ st])
      from fetch_page_Stop[OF Stop] eq have
        a: "length (requests s') \<le> length (requests st) + 1"
        and b: "pages s' = pages st
          \<or> (\<exists>n c. pages s' = pages st @ [\<lparr>fetched_before = fetched st, batch_size = n, has_cursor = c\<rparr>])"
        and c: "length (pages s') - length (pages st) \<le> length (requests s') - length (requests st)"
        by auto
      have "length (requests s') \<le> length (requests st) + nat (limit - fetched st)"
        using a True by linarith
      moreover from b have "\<exists>new. pages s' = pages st @ new
             \<and> (\<forall>p\<in>set new. fetched_before p < limit)
             \<and> (\<forall>i. Suc i < length new \<longrightarrow> has_cursor (new ! i) \<and> 0 < batch_size (new ! i))
             \<and> length new \<le> length (requests s') - length (requests st)"
      proof
        assume "pages s' = pages st"
        then show ?thesis by (intro exI[of _ "[]"]) simp
      next
        assume "\<exists>n c. pages s' = pages st @ [\<lparr>fetched_before = fetched st, batch_size = n, has_cursor = c\<rparr>]"
        then obtain n c where
          p: "pages s' = pages st @ [\<lparr>fetched_before = fetched st, batch_size = n, has_cursor = c\<rparr>]"
          by blast
        with c have "1 \<le> length (requests s') - length (requests st)" by simp
        with p True show ?thesis
          by (intro exI[of _ "[\<lparr>fetched_before = fetched st, batch_size = n, has_cursor = c\<rparr>]"]) simp
      qed
      ultimately show ?thesis by blast
    next
      case (Next st1)
      with True "1.prems" have rec: "fetch_loop request workflow_id limit st1 = (r, s')"
        by (simp add: fetch_loop.simps[of _ _ _ st])
      from fetch_page_Next[OF Next] obtain req n where
        n: "requests st1 = requests st @ [req]" "0 < n"
          "pages st1 = pages st @ [\<lparr>fetched_before = fetched st, batch_size = n, has_cursor = True\<rparr>]"
          "fetched st1 = fetched st + int n" by blast
      from "1.IH"[OF True Next rec] obtain new where
        ih: "length (requests s') \<le> length (requests st1) + nat (limit - fetched st1)"
          "pages s' = pages st1 @ new" "\<forall>p\<in>set new. fetched_before p < limit"
          "\<forall>i. Suc i < length new \<longrightarrow> has_cursor (new ! i) \<and> 0 < batch_size (new ! i)"
          "length new \<le> length (requests s') - length (requests st1)"
        by blast
      let ?p = "\<lparr>fetched_before = fetched st, batch_size = n, has_cursor = True\<rparr>"
      have r1: "length (requests s') \<le> length (requests st) + nat (limit - fetched st)"
        using ih(1) n(1,2,4) True by auto
      have mono: "length (requests st1) \<le> length (requests s')"
        using fetch_loop_requests_mono[OF rec] .
      have r2: "pages s' = pages st @ (?p # new)" using ih(2) n(3) by simp
      have r3: "\<forall>p\<in>set (?p # new). fetched_before p < limit" using ih(3) True by simp
      have r4: "\<forall>i. Suc i < length (?p # new) \<longrightarrow> has_cursor ((?p # new) ! i) \<and> 0 < batch_size ((?p # new) ! i)"
      proof (intro allI impI)
        fix i assume "Suc i < length (?p # new)"
        then show "has_cursor ((?p # new) ! i) \<and> 0 < batch_size ((?p # new) ! i)"
          using ih(4) n(2) by (cases i) auto
      qed
      have r5: "length (?p # new) \<le> length (requests s') - length (requests st)"
        using ih(5) n(1) mono by simp
      show ?thesis using r1 r2 r3 r4 r5 by blast
    qed
  qed
qed

lemma fetch_loop_out_when_done:
  assumes "\<not> fetched s < limit"
  shows "fetch_loop request workflow_id limit s = (None, s)"
  using assms by (simp add: fetch_loop.simps[of _ _ _ s])


lemma fetch_page_Stop_exc:
  assumes "fetch_page request workflow_id limit st = Stop (Some e) st'"
  shows "pages st' = pages st \<and> out st' = out st \<and> fetched st' = fetched st
       \<and> length (requests st) \<le> length (requests st')
       \<and> length (requests st') \<le> length (requests st) + 1"
  using assms
  by (auto simp: fetch_page_def Let_def split: sum.splits if_splits json.splits
      option.splits prod.splits)

lemma fetch_page_Stop_done:
  assumes "fetch_page request workflow_id limit st = Stop None st'"
  shows "\<exists>req n c. requests st' = requests st @ [req]
          \<and> pages st' = pages st @ [\<lparr>fetched_before = fetched st, batch_size = n, has_cursor = c\<rparr>]
          \<and> fetched st' = fetched st + int n \<and> length (out st') = length (out st) + n
          \<and> (\<not> c \<or> n = 0)"
proof -
  have empty: "items = []" if "\<not> truthy (py_or b (JArr []))" "py_iter (py_or b (JArr [])) = Inr items"
    for b items
    using that by (cases b) (auto simp: py_iter_def py_or_def split: if_splits)
  show ?thesis
    using assms empty
    by (auto simp: fetch_page_def Let_def split: sum.splits if_splits json.splits
        option.splits prod.splits)
qed

lemma fetch_loop_pages:
  assumes "fetch_loop request workflow_id limit s = (r, s')"
  shows "\<exists>new. pages s' = pages s @ new
          \<and> (\<forall>i<length new. fetched_before (new ! i)
                  = fetched s + int (sum_list (map batch_size (take i new)))
                \<and> fetched_before (new ! i) < limit)
          \<and> fetched s' = fetched s + int (sum_list (map batch_size new))
          \<and> length (out s') = length (out s) + sum_list (map batch_size new)
          \<and> length (requests s') \<le> length (requests s) + length new + 1
          \<and> (r = None \<longrightarrow> length (requests s') = length (requests s) + length new
                \<and> (new = [] \<longrightarrow> \<not> fetched s < limit)
                \<and> (new \<noteq> [] \<longrightarrow> \<not> has_cursor (last new) \<or> batch_size (last new) = 0
                       \<or> limit \<le> fetched s'))"
  using assms
proof (induction request workflow_id limit s arbitrary: r s' rule: fetch_loop.induct)
  case (1 request workflow_id limit st)
  show ?case
  proof (cases "fetched st < limit")
    case False
    with "1.prems" have "s' = st" "r = None" by (simp_all add: fetch_loop.simps[of _ _ _ st])
    with False show ?thesis by (intro exI[of _ "[]"]) simp
  next
    case True
    show ?thesis
    proof (cases "fetch_page request workflow_id limit st")
      case (Stop r0 st0)
      with True "1.prems" have eq: "s' = st0" "r = r0"
        by (simp_all add: fetch_loop.simps[of _ _ _ st])
      show ?thesis
      proof (cases r0)
        case (Some e)
        with Stop eq have "fetch_page request workflow_id limit st = Stop (Some e) s'" by simp
        from fetch_page_Stop_exc[OF this] eq Some show ?thesis
          by (intro exI[of _ "[]"]) simp
      next
        case None
        with Stop eq have "fetch_page request workflow_id limit st = Stop None s'" by simp
        from fetch_page_Stop_done[OF this] obtain req n c where
          d: "requests s' = requests st @ [req]"
            "pages s' = pages st @ [\<lparr>fetched_before = fetched st, batch_size = n, has_cursor = c\<rparr>]"
            "fetched s' = fetched st + int n" "length (out s') = length (out st) + n"
            "\<not> c \<or> n = 0" by blast
        then show ?thesis using True
          by (intro exI[of _ "[\<lparr>fetched_before = fetched st, batch_size = n, has_cursor = c\<rparr>]"])
             auto
      qed
    next
      case (Next st1)
      with True "1.prems" have rec: "fetch_loop request workflow_id limit st1 = (r, s')"
        by (simp add: fetch_loop.simps[of _ _ _ st])
      from fetch_page_Next[OF Next] obtain req n where
        n: "requests st1 = requests st @ [req]" "0 < n"
          "pages st1 = pages st @ [\<lparr>fetched_before = fetched st, batch_size = n, has_cursor = True\<rparr>]"
          "fetched st1 = fetched st + int n" "length (out st1) = length (out st) + n" by blast
      let ?p = "\<lparr>fetched_before = fetched st, batch_size = n, has_cursor = True\<rparr>"
      from "1.IH"[OF True Next rec] obtain new where
        ih: "pages s' = pages st1 @ new"
          "\<forall>i<length new. fetched_before (new ! i)
                  = fetched st1 + int (sum_list (map batch_size (take i new)))
                \<and> fetched_before (new ! i) < limit"
          "fetched s' = fetched st1 + int (sum_list (map batch_size new))"
          "length (out s') = length (out st1) + sum_list (map batch_size new)"
          "length (requests s') \<le> length (requests st1) + length new + 1"
          "r = None \<longrightarrow> length (requests s') = length (requests st1) + length new
                \<and> (new = [] \<longrightarrow> \<not> fetched st1 < limit)
                \<and> (new \<noteq> [] \<longrightarrow> \<not> has_cursor (last new) \<or> batch_size (last new) = 0
                       \<or> limit \<le> fetched s')"
        by blast
      have r1: "pages s' = pages st @ (?p # new)" using ih(1) n(3) by simp
      have r2: "\<forall>i<length (?p # new). fetched_before ((?p # new) ! i)
                  = fetched st + int (sum_list (map batch_size (take i (?p # new))))
                \<and> fetched_before ((?p # new) ! i) < limit"
      proof (intro allI impI)
        fix i assume i: "i < length (?p # new)"
        show "fetched_before ((?p # new) ! i)
                  = fetched st + int (sum_list (map batch_size (take i (?p # new))))
                \<and> fetched_before ((?p # new) ! i) < limit"
        proof (cases i)
          case 0
          with True show ?thesis by simp
        next
          case (Suc j)
          with i have "j < length new" by simp
          with ih(2) have "fetched_before (new ! j)
                  = fetched st1 + int (sum_list (map batch_size (take j new)))
                \<and> fetched_before (new ! j) < limit" by blast
          with Suc n(4) show ?thesis by simp
        qed
      qed
      have r3: "fetched s' = fetched st + int (sum_list (map batch_size (?p # new)))"
        using ih(3) n(4) by simp
      have r4: "length (out s') = length (out st) + sum_list (map batch_size (?p # new))"
        using ih(4) n(5) by simp
      have r5: "length (requests s') \<le> length (requests st) + length (?p # new) + 1"
        using ih(5) n(1) by simp
      have r6: "r = None \<longrightarrow> length (requests s') = length (requests st) + length (?p # new)
                \<and> (?p # new = [] \<longrightarrow> \<not> fetched st < limit)
                \<and> (?p # new \<noteq> [] \<longrightarrow> \<not> has_cursor (last (?p # new))
                       \<or> batch_size (last (?p # new)) = 0 \<or> limit \<le> fetched s')"
      proof
        assume "r = None"
        with ih(6) have a: "length (requests s') = length (requests st1) + length new"
          "new = [] \<longrightarrow> \<not> fetched st1 < limit"
          "new \<noteq> [] \<longrightarrow> \<not> has_cursor (last new) \<or> batch_size (last new) = 0
                       \<or> limit \<le> fetched s'" by simp_all
        have "\<not> has_cursor (last (?p # new)) \<or> batch_size (last (?p # new)) = 0
                       \<or> limit \<le> fetched s'"
        proof (cases "new = []")
          case True
          with a(2) ih(3) show ?thesis by simp
        next
          case False
          with a(3) show ?thesis by simp
        qed
        with a(1) n(1) show "length (requests s') = length (requests st) + length (?p # new)
                \<and> (?p # new = [] \<longrightarrow> \<not> fetched st < limit)
                \<and> (?p # new \<noteq> [] \<longrightarrow> \<not> has_cursor (last (?p # new))
                       \<or> batch_size (last (?p # new)) = 0 \<or> limit \<le> fetched s')" by simp
      qed
      show ?thesis using r1 r2 r3 r4 r5 r6 by blast
    qed
  qed
qed

text \<open>
  C5. For every target count N, every listing endpoint and every state of the world,
  \<open>fetch_executions\<close> is a total function: the pagination loop ends, after at most N
  requests. The count kept by the loop is the number of records received: the count
  before a page is the sum of the sizes of the pages before it, and the accumulated list
  has the size of all pages together. Every page is requested while that count is below
  N, and a page is followed by another request only if it carried a cursor and at least
  one record. When the loop ends without an exception, every request was answered by a
  page and either no page was requested because N is not positive, or the last page
  carried no cursor, or it had no record, or the count has reached N. The returned list
  is the first N records received, so at most N.
\<close>

theorem fetch_executions_terminates_bounded:
  "(case fetch_executions request w workflow_id limit of
      (r, st) \<Rightarrow>
        length (requests st) \<le> nat limit
        \<and> length (pages st) \<le> length (requests st)
        \<and> length (requests st) \<le> length (pages st) + 1
        \<and> (\<forall>i<length (pages st).
              fetched_before (pages st ! i)
                = int (sum_list (map batch_size (take i (pages st))))
              \<and> fetched_before (pages st ! i) < limit)
        \<and> (\<forall>i. Suc i < length (pages st) \<longrightarrow>
               has_cursor (pages st ! i) \<and> 0 < batch_size (pages st ! i))
        \<and> length (out st) = sum_list (map batch_size (pages st))
        \<and> fetched st = int (length (out st))
        \<and> (\<forall>xs. r = Inr xs \<longrightarrow>
               xs = take (nat limit) (out st) \<and> length xs \<le> nat limit
               \<and> length (requests st) = length (pages st)
               \<and> (pages st = [] \<longrightarrow> limit \<le> 0)
               \<and> (pages st \<noteq> [] \<longrightarrow>
                     \<not> has_cursor (last (pages st)) \<or> batch_size (last (pages st)) = 0
                     \<or> limit \<le> int (length (out st)))))"
proof -
  let ?s0 = "\<lparr>out = [], cursor = JNull, fetched = 0, world = w, requests = [],
               pages = []\<rparr> :: 'a fetch_state"
  obtain r0 st where loop: "fetch_loop request workflow_id limit ?s0 = (r0, st)"
    by (cases "fetch_loop request workflow_id limit ?s0") auto
  from fetch_loop_inv[OF loop] obtain new0 where
    inv: "length (requests st) \<le> nat limit" "pages st = new0"
      "\<forall>i. Suc i < length new0 \<longrightarrow> has_cursor (new0 ! i) \<and> 0 < batch_size (new0 ! i)"
      "length new0 \<le> length (requests st)"
    by auto
  from fetch_loop_pages[OF loop] obtain new where
    raw: "pages st = pages ?s0 @ new"
      "\<forall>i<length new. fetched_before (new ! i)
                  = fetched ?s0 + int (sum_list (map batch_size (take i new)))
                \<and> fetched_before (new ! i) < limit"
      "fetched st = fetched ?s0 + int (sum_list (map batch_size new))"
      "length (out st) = length (out ?s0) + sum_list (map batch_size new)"
      "length (requests st) \<le> length (requests ?s0) + length new + 1"
      "r0 = None \<longrightarrow> length (requests st) = length (requests ?s0) + length new
                \<and> (new = [] \<longrightarrow> \<not> fetched ?s0 < limit)
                \<and> (new \<noteq> [] \<longrightarrow> \<not> has_cursor (last new) \<or> batch_size (last new) = 0
                       \<or> limit \<le> fetched st)"
    by blast
  have pg1: "pages st = new" using raw(1) by simp
  have pg2: "\<forall>i<length new. fetched_before (new ! i) = int (sum_list (map batch_size (take i new)))
                \<and> fetched_before (new ! i) < limit"
  proof (intro allI impI)
    fix i assume "i < length new"
    with raw(2) have "fetched_before (new ! i)
                  = fetched ?s0 + int (sum_list (map batch_size (take i new)))
                \<and> fetched_before (new ! i) < limit" by blast
    then show "fetched_before (new ! i) = int (sum_list (map batch_size (take i new)))
                \<and> fetched_before (new ! i) < limit" by simp
  qed
  have pg3: "fetched st = int (sum_list (map batch_size new))" using raw(3) by simp
  have pg4: "length (out st) = sum_list (map batch_size new)" using raw(4) by simp
  have pg5: "length (requests st) \<le> length new + 1" using raw(5) by simp
  have pg6: "r0 = None \<longrightarrow> length (requests st) = length new
                \<and> (new = [] \<longrightarrow> \<not> 0 < limit)
                \<and> (new \<noteq> [] \<longrightarrow> \<not> has_cursor (last new) \<or> batch_size (last new) = 0
                       \<or> limit \<le> fetched st)"
    using raw(6) by simp
  note pg = pg1 pg2 pg3 pg4 pg5 pg6
  have neg: "out st = []" if "limit < 0"
  proof -
    have "\<not> fetched ?s0 < limit" using that by simp
    then have eq: "fetch_loop request workflow_id limit ?s0 = (None, ?s0)"
      by (rule fetch_loop_out_when_done)
    have "st = ?s0" using loop unfolding eq by simp
    then show ?thesis by simp
  qed
  have slice: "py_slice_to limit (out st) = take (nat limit) (out st)"
    using neg by (cases "limit < 0") (auto simp: py_slice_to_def)
  have fe: "fetch_executions request w workflow_id limit =
      (case r0 of Some e \<Rightarrow> (Inl e, st) | None \<Rightarrow> (Inr (py_slice_to limit (out st)), st))"
    using loop by (simp add: fetch_executions_def split: option.splits)
  have c1: "length (requests st) \<le> nat limit" by (rule inv(1))
  have c2: "length (pages st) \<le> length (requests st)" using inv(2,4) by simp
  have c3: "length (requests st) \<le> length (pages st) + 1" using pg(1,5) by simp
  have c4: "\<forall>i<length (pages st).
              fetched_before (pages st ! i)
                = int (sum_list (map batch_size (take i (pages st))))
              \<and> fetched_before (pages st ! i) < limit"
    unfolding pg(1) by (rule pg(2))
  have c5: "\<forall>i. Suc i < length (pages st) \<longrightarrow>
               has_cursor (pages st ! i) \<and> 0 < batch_size (pages st ! i)"
    unfolding inv(2) by (rule inv(3))
  have c6: "length (out st) = sum_list (map batch_size (pages st))"
    unfolding pg(1) by (rule pg(4))
  have c7: "fetched st = int (length (out st))" using pg(3,4) by simp
  show ?thesis
  proof (cases r0)
    case (Some e)
    have c8: "\<forall>xs. (Inl e :: pyexc + json list) = Inr xs \<longrightarrow>
               xs = take (nat limit) (out st) \<and> length xs \<le> nat limit
               \<and> length (requests st) = length (pages st)
               \<and> (pages st = [] \<longrightarrow> limit \<le> 0)
               \<and> (pages st \<noteq> [] \<longrightarrow>
                     \<not> has_cursor (last (pages st)) \<or> batch_size (last (pages st)) = 0
                     \<or> limit \<le> int (length (out st)))"
      by simp
    show ?thesis
      unfolding fe Some by (simp only: option.case prod.case) (intro conjI c1 c2 c3 c4 c5 c6 c7 c8)
  next
    case None
    have f1: "length (requests st) = length (pages st)" using pg(6) None pg(1) by simp
    have f2: "pages st = [] \<longrightarrow> limit \<le> 0" using pg(6) None pg(1) by auto
    have f3: "pages st \<noteq> [] \<longrightarrow>
                     \<not> has_cursor (last (pages st)) \<or> batch_size (last (pages st)) = 0
                     \<or> limit \<le> int (length (out st))"
      using pg(6) None pg(1) c7 by auto
    have c8: "\<forall>xs. (Inr (py_slice_to limit (out st)) :: pyexc + json list) = Inr xs \<longrightarrow>
               xs = take (nat limit) (out st) \<and> length xs \<le> nat limit
               \<and> length (requests st) = length (pages st)
               \<and> (pages st = [] \<longrightarrow> limit \<le> 0)
               \<and> (pages st \<noteq> [] \<longrightarrow>
                     \<not> has_cursor (last (pages st)) \<or> batch_size (last (pages st)) = 0
                     \<or> limit \<le> int (length (out st)))"
    proof (intro allI impI)
      fix xs assume "(Inr (py_slice_to limit (out st)) :: pyexc + json list) = Inr xs"
      then have xs: "xs = take (nat limit) (out st)" using slice by simp
      then have "length xs \<le> nat limit" by simp
      with xs f1 f2 f3 show "xs = take (nat limit) (out st) \<and> length xs \<le> nat limit
               \<and> length (requests st) = length (pages st)
               \<and> (pages st = [] \<longrightarrow> limit \<le> 0)
               \<and> (pages st \<noteq> [] \<longrightarrow>
                     \<not> has_cursor (last (pages st)) \<or> batch_size (last (pages st)) = 0
                     \<or> limit \<le> int (length (out st)))"
        by (intro conjI)
    qed
    show ?thesis
      unfolding fe None by (simp only: option.case prod.case) (intro conjI c1 c2 c3 c4 c5 c6 c7 c8)
  qed
qed

text \<open>
  The endpoint that echoes its cursor with two records a page, asked for three records:
  two requests, the second made with two records in hand, four records received, three
  returned.
\<close>

theorem fetch_executions_terminates_bounded_witness:
  "fst (fetch_executions echo_server () ''wf'' 3)
     = Inr [JObj [(''id'', JInt 1)], JObj [(''id'', JInt 2)], JObj [(''id'', JInt 1)]]
   \<and> pages (snd (fetch_executions echo_server () ''wf'' 3))
     = [\<lparr>fetched_before = 0, batch_size = 2, has_cursor = True\<rparr>,
        \<lparr>fetched_before = 2, batch_size = 2, has_cursor = True\<rparr>]
   \<and> requests (snd (fetch_executions echo_server () ''wf'' 3))
     = [\<lparr>req_workflowId = ''wf'', req_limit = 3, req_cursor = None\<rparr>,
        \<lparr>req_workflowId = ''wf'', req_limit = 1, req_cursor = Some ''abc''\<rparr>]
   \<and> length (requests (snd (fetch_executions echo_server () ''wf'' 3))) \<le> nat 3
   \<and> length (out (snd (fetch_executions echo_server () ''wf'' 3)))
       = sum_list (map batch_size (pages (snd (fetch_executions echo_server () ''wf'' 3))))"
proof -
  have v: "fst (fetch_executions echo_server () ''wf'' 3)
     = Inr [JObj [(''id'', JInt 1)], JObj [(''id'', JInt 2)], JObj [(''id'', JInt 1)]]"
    by code_simp
  have n: "pages (snd (fetch_executions echo_server () ''wf'' 3))
     = [\<lparr>fetched_before = 0, batch_size = 2, has_cursor = True\<rparr>,
        \<lparr>fetched_before = 2, batch_size = 2, has_cursor = True\<rparr>]"
    by code_simp
  have q: "requests (snd (fetch_executions echo_server () ''wf'' 3))
     = [\<lparr>req_workflowId = ''wf'', req_limit = 3, req_cursor = None\<rparr>,
        \<lparr>req_workflowId = ''wf'', req_limit = 1, req_cursor = Some ''abc''\<rparr>]"
    by code_simp
  have b: "length (requests (snd (fetch_executions echo_server () ''wf'' 3))) \<le> nat 3
   \<and> length (out (snd (fetch_executions echo_server () ''wf'' 3)))
       = sum_list (map batch_size (pages (snd (fetch_executions echo_server () ''wf'' 3))))"
    using fetch_executions_terminates_bounded[where request = echo_server and w = "()"
      and workflow_id = "''wf''" and limit = 3]
    by (cases "fetch_executions echo_server () ''wf'' 3") simp
  from v n q b show ?thesis by (intro conjI) simp_all
qed

text \<open>
  C9. The claim holds of the design but not of the code: \<open>format_timestamp\<close> catches
  \<^verbatim>\<open>ValueError\<close> and \<^verbatim>\<open>OSError\<close> and lets \<^verbatim>\<open>OverflowError\<close> through. An integer outside 64
  bits, and a time in the last three hours of year 9999, leave the function as an
  exception.
\<close>

theorem format_timestamp_overflow_escapes:
  "format_timestamp (Some (2 ^ 63)) = Inl OverflowError
   \<and> format_timestamp (Some 253402300799) = Inl OverflowError
   \<and> format_timestamp (Some (2 ^ 62)) = Inr None
   \<and> format_timestamp (Some 1767193260) = Inr (Some ''2025-12-31 18:01'')
   \<and> format_timestamp None = Inr None"
  by code_simp

lemma attempt_result_transient:
  assumes "status_code resp \<in> {429, 500, 502, 503, 504}"
  shows "attempt_result (Responds resp)
       = Inl (RuntimeError (''HTTP '' @ show_nat (status_code resp) @ '': ''
               @ take 200 (resp_text resp)))"
  using assms by (auto simp: attempt_result_def transient_codes_def)


lemma backoff_bounds:
  fixes r :: rat
  assumes "0 \<le> r" "r < 1"
  shows "2 ^ n * (3 / 5) \<le> 2 ^ n * (3 / 5) + r * (3 / 10)"
    and "2 ^ n * (3 / 5) + r * (3 / 10) < 2 ^ n * (3 / 5) + 3 / 10"
  using assms by auto

lemma retry_loop_shape:
  assumes "1 \<le> a" "a \<le> m"
  shows "\<exists>k. a \<le> k \<and> k \<le> m
          \<and> retry_loop send rnd m [a..<m + 1] run
              = run\<lparr>attempts := attempts run @ [a..<k + 1],
                     sleeps := sleeps run
                        @ map (\<lambda>n. 2 ^ (n - 1) * (3 / 5) + rnd n * (3 / 10)) [a..<k],
                     returned := attempt_result (send k)\<rparr>
          \<and> (\<forall>n. a \<le> n \<and> n < k \<longrightarrow> (\<exists>e. attempt_result (send n) = Inl e))
          \<and> (k < m \<longrightarrow> (\<exists>resp. attempt_result (send k) = Inr resp))"
  using assms
proof (induction "m - a" arbitrary: a run)
  case 0
  then have am: "a = m" by simp
  have l: "[a..<m + 1] = [m]" using am by simp
  show ?case
  proof (cases "attempt_result (send m)")
    case (Inl e)
    then show ?thesis using am l by (intro exI[of _ m]) (auto simp: Let_def)
  next
    case (Inr resp)
    then show ?thesis using am l by (intro exI[of _ m]) (auto simp: Let_def)
  qed
next
  case (Suc d)
  then have lt: "a < m" by simp
  have l: "[a..<m + 1] = a # [a + 1..<m + 1]" using lt by (simp add: upt_conv_Cons)
  show ?case
  proof (cases "attempt_result (send a)")
    case (Inr resp)
    then show ?thesis using lt l by (intro exI[of _ a]) (auto simp: Let_def)
  next
    case (Inl e)
    let ?run = "run\<lparr>attempts := attempts run @ [a],
                   sleeps := sleeps run @ [2 ^ (a - 1) * (3 / 5) + rnd a * (3 / 10)]\<rparr>"
    have d: "d = m - (a + 1)" using Suc.hyps(2) by simp
    from Suc.hyps(1)[OF d, of ?run] lt obtain k where
      k: "a + 1 \<le> k" "k \<le> m"
        "retry_loop send rnd m [a + 1..<m + 1] ?run
           = ?run\<lparr>attempts := attempts ?run @ [a + 1..<k + 1],
                  sleeps := sleeps ?run
                     @ map (\<lambda>n. 2 ^ (n - 1) * (3 / 5) + rnd n * (3 / 10)) [a + 1..<k],
                  returned := attempt_result (send k)\<rparr>"
        "\<forall>n. a + 1 \<le> n \<and> n < k \<longrightarrow> (\<exists>e. attempt_result (send n) = Inl e)"
        "k < m \<longrightarrow> (\<exists>resp. attempt_result (send k) = Inr resp)"
      by auto
    have step: "retry_loop send rnd m [a..<m + 1] run
        = retry_loop send rnd m [a + 1..<m + 1] ?run"
      using Inl lt l by (simp add: Let_def)
    have u1: "[a..<k + 1] = a # [a + 1..<k + 1]" using k(1) by (simp add: upt_conv_Cons)
    have u2: "[a..<k] = a # [a + 1..<k]" using k(1) by (simp add: upt_conv_Cons)
    have fails: "\<forall>n. a \<le> n \<and> n < k \<longrightarrow> (\<exists>e. attempt_result (send n) = Inl e)"
    proof (intro allI impI)
      fix n assume n: "a \<le> n \<and> n < k"
      show "\<exists>e. attempt_result (send n) = Inl e"
      proof (cases "n = a")
        case True
        with Inl show ?thesis by blast
      next
        case False
        with n k(4) show ?thesis by simp
      qed
    qed
    have "retry_loop send rnd m [a..<m + 1] run
              = run\<lparr>attempts := attempts run @ [a..<k + 1],
                     sleeps := sleeps run
                        @ map (\<lambda>n. 2 ^ (n - 1) * (3 / 5) + rnd n * (3 / 10)) [a..<k],
                     returned := attempt_result (send k)\<rparr>"
      unfolding step k(3) u1 u2 by simp
    with k(1,2,5) fails show ?thesis by (intro exI[of _ k]) simp
  qed
qed

text \<open>
  C8. With the default of five retries, \<open>request_with_retry\<close> makes attempts 1, 2, ... up
  to some \<open>k\<close> of at most 5; every attempt before \<open>k\<close> failed, by an exception or by a
  response with status 429, 500, 502, 503 or 504, which is turned into an error and
  retried in the same way; after the failed attempt \<open>n\<close> it sleeps
  \<open>0.6 * 2^(n-1)\<close> plus 0.3 times a random number of \<open>[0, 1)\<close>, so a delay in
  \<open>[0.6 * 2^(n-1), 0.6 * 2^(n-1) + 0.3)\<close>; and the run ends with exactly what attempt
  \<open>k\<close> gave: when all five attempts fail, with the error of the fifth, unchanged.
\<close>

theorem request_with_retry_policy:
  assumes "\<forall>n. 0 \<le> rnd n \<and> rnd n < 1"
  shows "\<exists>k. 1 \<le> k \<and> k \<le> 5
          \<and> attempts (request_with_retry send rnd 5) = [1..<k + 1]
          \<and> length (sleeps (request_with_retry send rnd 5)) = k - 1
          \<and> (\<forall>n. 1 \<le> n \<and> n < k \<longrightarrow>
                (\<exists>e. attempt_result (send n) = Inl e)
                \<and> sleeps (request_with_retry send rnd 5) ! (n - 1)
                     = 2 ^ (n - 1) * (3 / 5) + rnd n * (3 / 10)
                \<and> 2 ^ (n - 1) * (3 / 5) \<le> sleeps (request_with_retry send rnd 5) ! (n - 1)
                \<and> sleeps (request_with_retry send rnd 5) ! (n - 1)
                     < 2 ^ (n - 1) * (3 / 5) + 3 / 10)
          \<and> returned (request_with_retry send rnd 5) = attempt_result (send k)
          \<and> (k < 5 \<longrightarrow> (\<exists>resp. returned (request_with_retry send rnd 5) = Inr resp))
          \<and> ((\<forall>n. 1 \<le> n \<and> n \<le> 5 \<longrightarrow> (\<exists>e. attempt_result (send n) = Inl e))
                \<longrightarrow> k = 5 \<and> returned (request_with_retry send rnd 5) = attempt_result (send 5))
          \<and> (\<forall>e. attempt_result (Raises e) = Inl e)
          \<and> (\<forall>resp. status_code resp \<in> {429, 500, 502, 503, 504} \<longrightarrow>
                attempt_result (Responds resp)
                  = Inl (RuntimeError (''HTTP '' @ show_nat (status_code resp) @ '': ''
                          @ take 200 (resp_text resp))))"
proof -
  let ?run0 = "\<lparr>returned = Inl (RuntimeError ''unreachable''), attempts = [], sleeps = []\<rparr>"
  let ?delay = "\<lambda>n. 2 ^ (n - 1) * (3 / 5) + rnd n * (3 / 10)"
  from retry_loop_shape[of 1 5 send rnd ?run0] obtain k where
    k: "1 \<le> k" "k \<le> 5"
      "request_with_retry send rnd 5
         = \<lparr>returned = attempt_result (send k), attempts = [1..<k + 1],
            sleeps = map ?delay [1..<k]\<rparr>"
      "\<forall>n. 1 \<le> n \<and> n < k \<longrightarrow> (\<exists>e. attempt_result (send n) = Inl e)"
      "k < 5 \<longrightarrow> (\<exists>resp. attempt_result (send k) = Inr resp)"
    by (auto simp: request_with_retry_def)
  have att: "attempts (request_with_retry send rnd 5) = [1..<k + 1]" using k(3) by simp
  have sl: "sleeps (request_with_retry send rnd 5) = map ?delay [1..<k]" using k(3) by simp
  have ret: "returned (request_with_retry send rnd 5) = attempt_result (send k)"
    using k(3) by simp
  have len: "length (sleeps (request_with_retry send rnd 5)) = k - 1" using sl by simp
  have delays: "\<forall>n. 1 \<le> n \<and> n < k \<longrightarrow>
                (\<exists>e. attempt_result (send n) = Inl e)
                \<and> sleeps (request_with_retry send rnd 5) ! (n - 1) = ?delay n
                \<and> 2 ^ (n - 1) * (3 / 5) \<le> sleeps (request_with_retry send rnd 5) ! (n - 1)
                \<and> sleeps (request_with_retry send rnd 5) ! (n - 1)
                     < 2 ^ (n - 1) * (3 / 5) + 3 / 10"
  proof (intro allI impI)
    fix n assume n: "1 \<le> n \<and> n < k"
    then have "n - 1 < length [1..<k]" by auto
    then have "map ?delay [1..<k] ! (n - 1) = ?delay ([1..<k] ! (n - 1))" by (rule nth_map)
    moreover have "[1..<k] ! (n - 1) = n" using n by auto
    ultimately have d: "sleeps (request_with_retry send rnd 5) ! (n - 1) = ?delay n"
      using sl by simp
    have r: "0 \<le> rnd n" "rnd n < 1" using assms by auto
    show "(\<exists>e. attempt_result (send n) = Inl e)
                \<and> sleeps (request_with_retry send rnd 5) ! (n - 1) = ?delay n
                \<and> 2 ^ (n - 1) * (3 / 5) \<le> sleeps (request_with_retry send rnd 5) ! (n - 1)
                \<and> sleeps (request_with_retry send rnd 5) ! (n - 1)
                     < 2 ^ (n - 1) * (3 / 5) + 3 / 10"
      using k(4) n d backoff_bounds[OF r, of "n - 1"] by simp
  qed
  have allfail: "(\<forall>n. 1 \<le> n \<and> n \<le> 5 \<longrightarrow> (\<exists>e. attempt_result (send n) = Inl e))
                \<longrightarrow> k = 5 \<and> returned (request_with_retry send rnd 5) = attempt_result (send 5)"
  proof
    assume a: "\<forall>n. 1 \<le> n \<and> n \<le> 5 \<longrightarrow> (\<exists>e. attempt_result (send n) = Inl e)"
    have "k = 5"
    proof (rule ccontr)
      assume "k \<noteq> 5"
      with k(2) have "k < 5" by simp
      with k(5) obtain resp where "attempt_result (send k) = Inr resp" by blast
      moreover from a k(1,2) obtain e where "attempt_result (send k) = Inl e" by blast
      ultimately show False by simp
    qed
    with ret show "k = 5 \<and> returned (request_with_retry send rnd 5) = attempt_result (send 5)"
      by simp
  qed
  have succ: "k < 5 \<longrightarrow> (\<exists>resp. returned (request_with_retry send rnd 5) = Inr resp)"
    using k(5) ret by simp
  have raises: "\<forall>e. attempt_result (Raises e) = Inl e" by (simp add: attempt_result_def)
  have trans: "\<forall>resp. status_code resp \<in> {429, 500, 502, 503, 504} \<longrightarrow>
                attempt_result (Responds resp)
                  = Inl (RuntimeError (''HTTP '' @ show_nat (status_code resp) @ '': ''
                          @ take 200 (resp_text resp)))"
    using attempt_result_transient by blast
  show ?thesis
    using k(1,2) att len delays ret succ allfail raises trans by blast
qed

theorem request_with_retry_policy_witness:
  "(\<forall>n::nat. (0::rat) \<le> 1 / 2 \<and> (1 / 2 :: rat) < 1)
   \<and> (\<exists>k. 1 \<le> k \<and> k \<le> 5
         \<and> attempts (request_with_retry flaky_send (\<lambda>n. 1 / 2) 5) = [1..<k + 1]
         \<and> length (sleeps (request_with_retry flaky_send (\<lambda>n. 1 / 2) 5)) = k - 1
         \<and> returned (request_with_retry flaky_send (\<lambda>n. 1 / 2) 5)
              = attempt_result (flaky_send k))
   \<and> request_with_retry flaky_send (\<lambda>n. 1 / 2) 5
       = \<lparr>returned = Inr \<lparr>status_code = 200, resp_text = ''ok'', resp_json = Some (JObj [])\<rparr>,
          attempts = [1, 2, 3], sleeps = [3 / 4, 27 / 20]\<rparr>
   \<and> request_with_retry down_send (\<lambda>n. 1 / 2) 5
       = \<lparr>returned = Inl (RuntimeError ''HTTP 503: busy''),
          attempts = [1, 2, 3, 4, 5], sleeps = [3 / 4, 27 / 20, 51 / 20, 99 / 20]\<rparr>"
proof -
  have h: "\<forall>n::nat. (0::rat) \<le> (\<lambda>n. 1 / 2) n \<and> (\<lambda>n. 1 / 2 :: rat) n < 1" by simp
  have v1: "request_with_retry flaky_send (\<lambda>n. 1 / 2) 5
       = \<lparr>returned = Inr \<lparr>status_code = 200, resp_text = ''ok'', resp_json = Some (JObj [])\<rparr>,
          attempts = [1, 2, 3], sleeps = [3 / 4, 27 / 20]\<rparr>"
    by code_simp
  have v2: "request_with_retry down_send (\<lambda>n. 1 / 2) 5
       = \<lparr>returned = Inl (RuntimeError ''HTTP 503: busy''),
          attempts = [1, 2, 3, 4, 5], sleeps = [3 / 4, 27 / 20, 51 / 20, 99 / 20]\<rparr>"
    by code_simp
  from request_with_retry_policy[OF h, of flaky_send] obtain k where
    "1 \<le> k" "k \<le> 5"
    "attempts (request_with_retry flaky_send (\<lambda>n. 1 / 2) 5) = [1..<k + 1]"
    "length (sleeps (request_with_retry flaky_send (\<lambda>n. 1 / 2) 5)) = k - 1"
    "returned (request_with_retry flaky_send (\<lambda>n. 1 / 2) 5) = attempt_result (flaky_send k)"
    by blast
  then have "\<exists>k. 1 \<le> k \<and> k \<le> 5
         \<and> attempts (request_with_retry flaky_send (\<lambda>n. 1 / 2) 5) = [1..<k + 1]
         \<and> length (sleeps (request_with_retry flaky_send (\<lambda>n. 1 / 2) 5)) = k - 1
         \<and> returned (request_with_retry flaky_send (\<lambda>n. 1 / 2) 5)
              = attempt_result (flaky_send k)" by blast
  with v1 v2 show ?thesis by simp
qed

lemma check_terminal_strings:
  assumes "\<forall>s\<in>set sts. is_str (status s)"
  shows "check_terminal ft sts
       = (ft \<or> (\<exists>s\<in>set sts. is_terminal_status (status s) = Inr True), None)"
  using assms
proof (induction sts arbitrary: ft)
  case Nil
  then show ?case by simp
next
  case (Cons s sts)
  from Cons.prems obtain str where s: "status s = JStr str" by (cases "status s") auto
  then obtain b where b: "is_terminal_status (status s) = Inr b"
    by (simp add: is_terminal_status_def)
  have "check_terminal ft (s # sts) = check_terminal (if b then True else ft) sts"
    using b by simp
  also have "\<dots> = ((if b then True else ft)
      \<or> (\<exists>s\<in>set sts. is_terminal_status (status s) = Inr True), None)"
    using Cons.IH[of "if b then True else ft"] Cons.prems by simp
  finally show ?case using b by auto
qed

lemma scan_executions_break:
  assumes "extract_status_updates B e message_id wa_id = Inr ex"
    and "\<forall>s\<in>set (since_filter since ex). is_str (status s)"
    and "\<exists>s\<in>set (since_filter since ex). is_terminal_status (status s) = Inr True"
  shows "scan_executions B message_id wa_id since st (e # post)
       = Inr (st\<lparr>scanned := scanned st @ [e],
                 all_statuses := all_statuses st @ since_filter since ex,
                 found_terminal := True\<rparr>)"
proof -
  have ne: "since_filter since ex \<noteq> []" using assms(3) by auto
  have ct: "check_terminal ft (since_filter since ex) = (True, None)" for ft
    using check_terminal_strings[OF assms(2), of ft] assms(3) by simp
  show ?thesis using assms(1) ne ct by (simp add: Let_def)
qed

lemma scan_executions_ignores_rest:
  assumes "extract_status_updates B e message_id wa_id = Inr ex"
    and "\<forall>s\<in>set (since_filter since ex). is_str (status s)"
    and "\<exists>s\<in>set (since_filter since ex). is_terminal_status (status s) = Inr True"
  shows "scan_executions B message_id wa_id since st (pre @ e # post)
       = scan_executions B message_id wa_id since st (pre @ [e])"
proof (induction pre arbitrary: st)
  case Nil
  show ?case
    using scan_executions_break[OF assms, of st post] scan_executions_break[OF assms, of st "[]"]
    by simp
next
  case (Cons p pre)
  show ?case
    by (simp add: Let_def Cons.IH split: sum.splits prod.splits option.splits)
qed

lemma scan_executions_scanned:
  assumes "scan_executions B message_id wa_id since st xs = Inr st'"
  shows "\<exists>k\<le>length xs. scanned st' = scanned st @ take k xs"
  using assms
proof (induction xs arbitrary: st)
  case Nil
  then show ?case by simp
next
  case (Cons x xs)
  let ?st0 = "st\<lparr>scanned := scanned st @ [x]\<rparr>"
  have step: "\<exists>k\<le>Suc (length xs). scanned st' = scanned st @ take k (x # xs)"
    if "scan_executions B message_id wa_id since s1 xs = Inr st'"
      "scanned s1 = scanned st @ [x]" for s1
  proof -
    from Cons.IH[OF that(1)] obtain k where "k \<le> length xs" "scanned st' = scanned s1 @ take k xs"
      by blast
    with that(2) show ?thesis by (intro exI[of _ "Suc k"]) simp
  qed
  have stop: "\<exists>k\<le>Suc (length xs). scanned st' = scanned st @ take k (x # xs)"
    if "scanned st' = scanned st @ [x]"
    using that by (intro exI[of _ 1]) simp
  from Cons.prems show ?case
    by (auto simp: Let_def split: sum.splits prod.splits option.splits if_splits
        intro: step stop)
qed

lemma track_message_status_fetch_first:
  assumes "track_message_status B request w wa_id message_id workflow_id limit since = Inr t"
  shows "fst (fetch_executions request w workflow_id limit) = Inr (fetched_executions t)
       \<and> listing_requests t = requests (snd (fetch_executions request w workflow_id limit))
       \<and> prefix (scanned_executions t) (fetched_executions t)"
proof -
  obtain r fs where f: "fetch_executions request w workflow_id limit = (r, fs)"
    by (cases "fetch_executions request w workflow_id limit") auto
  from assms f obtain executions sc res where
    r: "r = Inr executions"
    and sc: "scan_executions B message_id wa_id since
               \<lparr>all_statuses = [], found_terminal = False, scanned = []\<rparr> executions = Inr sc"
    and t: "t = \<lparr>result = res, fetched_executions = executions,
                 scanned_executions = scanned sc, listing_requests = requests fs\<rparr>"
    by (auto simp: track_message_status_def split: sum.splits)
  from scan_executions_scanned[OF sc] obtain k where "scanned sc = take k executions" by auto
  then have "prefix (scanned sc) executions" by (simp add: take_is_prefix)
  with f r t show ?thesis by simp
qed

text \<open>
  C4 (as amended). \<open>track_message_status\<close> fetches every execution before it scans the
  first: what it scans is a prefix of what \<open>fetch_executions\<close> returned, and the
  listing requests are those of \<open>fetch_executions\<close> alone. In the scan, once an execution
  yields a terminal status for the message (its retained statuses being strings), no
  later execution is scanned: the scan of the whole list is the scan of the list cut
  after that execution, and only executions up to it are handed to the extractor.
\<close>

theorem scan_stops_at_terminal_status:
  assumes "extract_status_updates B e message_id wa_id = Inr ex"
    and "\<forall>s\<in>set (since_filter since ex). is_str (status s)"
    and "\<exists>s\<in>set (since_filter since ex). is_terminal_status (status s) = Inr True"
  shows "scan_executions B message_id wa_id since st (pre @ e # post)
           = scan_executions B message_id wa_id since st (pre @ [e])
       \<and> scan_executions B message_id wa_id since st (e # post)
           = Inr (st\<lparr>scanned := scanned st @ [e],
                     all_statuses := all_statuses st @ since_filter since ex,
                     found_terminal := True\<rparr>)
       \<and> (\<forall>st'. scan_executions B message_id wa_id since st (pre @ e # post) = Inr st'
             \<longrightarrow> prefix (scanned st') (scanned st @ pre @ [e]))
       \<and> (\<forall>t request w workflow_id limit.
             track_message_status B request (w :: 'w) wa_id message_id workflow_id limit since
               = Inr t
             \<longrightarrow> fst (fetch_executions request w workflow_id limit) = Inr (fetched_executions t)
                 \<and> listing_requests t
                     = requests (snd (fetch_executions request w workflow_id limit))
                 \<and> prefix (scanned_executions t) (fetched_executions t))"
proof -
  have a: "scan_executions B message_id wa_id since st (pre @ e # post)
           = scan_executions B message_id wa_id since st (pre @ [e])"
    by (rule scan_executions_ignores_rest[OF assms])
  have b: "scan_executions B message_id wa_id since st (e # post)
           = Inr (st\<lparr>scanned := scanned st @ [e],
                     all_statuses := all_statuses st @ since_filter since ex,
                     found_terminal := True\<rparr>)"
    by (rule scan_executions_break[OF assms])
  have c: "\<forall>st'. scan_executions B message_id wa_id since st (pre @ e # post) = Inr st'
             \<longrightarrow> prefix (scanned st') (scanned st @ pre @ [e])"
  proof (intro allI impI)
    fix st' assume "scan_executions B message_id wa_id since st (pre @ e # post) = Inr st'"
    with a have "scan_executions B message_id wa_id since st (pre @ [e]) = Inr st'" by simp
    from scan_executions_scanned[OF this] obtain k where
      "scanned st' = scanned st @ take k (pre @ [e])" by blast
    moreover have "prefix (take k (pre @ [e])) (pre @ [e])" by (rule take_is_prefix)
    ultimately show "prefix (scanned st') (scanned st @ pre @ [e])"
      by (simp only: same_prefix_prefix)
  qed
  have d: "\<forall>t request w workflow_id limit.
             track_message_status B request (w :: 'w) wa_id message_id workflow_id limit since
               = Inr t
             \<longrightarrow> fst (fetch_executions request w workflow_id limit) = Inr (fetched_executions t)
                 \<and> listing_requests t
                     = requests (snd (fetch_executions request w workflow_id limit))
                 \<and> prefix (scanned_executions t) (fetched_executions t)"
    by (intro allI impI) (rule track_message_status_fetch_first)
  from a b c d show ?thesis by (intro conjI)
qed

theorem scan_stops_at_terminal_status_witness:
  "extract_status_updates simple_builtins execution_read ''wamid.A'' ''966''
     = Inr [\<lparr>status = JStr ''read'', timestamp = Some 1700000300,
              timestampFormatted = Some ''2023-11-15 01:18'', recipient_id = JStr ''966'',
              executionId = ''103'', recipientMismatch = False\<rparr>]
   \<and> is_terminal_status (JStr ''read'') = Inr True
   \<and> scan_executions simple_builtins ''wamid.A'' ''966'' None
        \<lparr>all_statuses = [], found_terminal = False, scanned = []\<rparr>
        [execution_read, execution_delivered, execution_sent]
     = Inr \<lparr>all_statuses =
              [\<lparr>status = JStr ''read'', timestamp = Some 1700000300,
                 timestampFormatted = Some ''2023-11-15 01:18'', recipient_id = JStr ''966'',
                 executionId = ''103'', recipientMismatch = False\<rparr>],
            found_terminal = True, scanned = [execution_read]\<rparr>"
proof -
  let ?ev = "\<lparr>status = JStr ''read'', timestamp = Some 1700000300,
              timestampFormatted = Some ''2023-11-15 01:18'', recipient_id = JStr ''966'',
              executionId = ''103'', recipientMismatch = False\<rparr>"
  have h1: "extract_status_updates simple_builtins execution_read ''wamid.A'' ''966'' = Inr [?ev]"
    by code_simp
  have t: "is_terminal_status (JStr ''read'') = Inr True" by code_simp
  have h2: "\<forall>s\<in>set (since_filter None [?ev]). is_str (status s)"
    by (simp add: since_filter_def)
  have h3: "\<exists>s\<in>set (since_filter None [?ev]). is_terminal_status (status s) = Inr True"
    using t by (simp add: since_filter_def)
  from scan_stops_at_terminal_status[OF h1 h2 h3,
      of "\<lparr>all_statuses = [], found_terminal = False, scanned = []\<rparr>" "[]"
         "[execution_delivered, execution_sent]"]
  have "scan_executions simple_builtins ''wamid.A'' ''966'' None
        \<lparr>all_statuses = [], found_terminal = False, scanned = []\<rparr>
        (execution_read # [execution_delivered, execution_sent])
     = Inr (\<lparr>all_statuses = [], found_terminal = False, scanned = []\<rparr>
              \<lparr>scanned := scanned \<lparr>all_statuses = [], found_terminal = False, scanned = []\<rparr>
                           @ [execution_read],
                all_statuses := all_statuses \<lparr>all_statuses = [], found_terminal = False,
                                  scanned = []\<rparr> @ since_filter None [?ev],
                found_terminal := True\<rparr>)"
    by blast
  then have "scan_executions simple_builtins ''wamid.A'' ''966'' None
        \<lparr>all_statuses = [], found_terminal = False, scanned = []\<rparr>
        [execution_read, execution_delivered, execution_sent]
     = Inr \<lparr>all_statuses = [?ev], found_terminal = True, scanned = [execution_read]\<rparr>"
    by (simp add: since_filter_def)
  with h1 t show ?thesis by blast
qed

text \<open>
  The claim as first stated fails: with three executions listed in one page, the first
  of which yields \<open>read\<close> for the message, the second and the third are not scanned, but
  they have been fetched, with their data, by the one listing request made before the
  scan.
\<close>

theorem later_executions_are_fetched_counterexample:
  "track_message_status simple_builtins
      (one_page_server [execution_read, execution_delivered, execution_sent]) ()
      ''966'' ''wamid.A'' ''wf'' 200 None
   = Inr \<lparr>result =
            \<lparr>waId = ''966'', messageId = ''wamid.A'', workflowId = ''wf'',
               latestStatus = JStr ''read'', latestTimestamp = Some 1700000300,
               latestTimestampFormatted = Some ''2023-11-15 01:18'',
               history =
                 [\<lparr>status = JStr ''read'', timestamp = Some 1700000300,
                    timestampFormatted = Some ''2023-11-15 01:18'',
                    recipient_id = JStr ''966'', executionId = ''103'',
                    recipientMismatch = False\<rparr>],
               foundInExecutionsCount = 1\<rparr>,
          fetched_executions = [execution_read, execution_delivered, execution_sent],
          scanned_executions = [execution_read],
          listing_requests = [\<lparr>req_workflowId = ''wf'', req_limit = 100, req_cursor = None\<rparr>]\<rparr>"
  by code_simp

lemma concat_mapE_skip:
  assumes "f x = Inr []"
  shows "concat_mapE f (xs @ x # ys) = concat_mapE f (xs @ ys)"
  using assms by (induction xs) (auto split: sum.splits)

lemma extract_guards:
  "\<not> is_arr x \<Longrightarrow> extract_node B i m w x = Inr []"
  "\<not> is_obj x \<Longrightarrow> extract_run B i m w x = Inr []"
  "\<not> is_arr x \<Longrightarrow> extract_main_item B i m w x = Inr []"
  "\<not> is_obj x \<Longrightarrow> extract_item B i m w x = Inr []"
  "\<not> is_obj x \<Longrightarrow> extract_status_obj B i m w x = Inr []"
  by (cases x; simp add: extract_node_def extract_run_def extract_main_item_def
      extract_item_def extract_status_obj_def)+

lemma py_or_obj_empty: "py_or (JObj x) (JObj []) = JObj x"
  by (cases x) (simp_all add: py_or_def)

lemma extract_item_body:
  assumes "dict_get d ''json'' (JObj []) = JObj j" and "webhook_body j = JObj b"
  shows "extract_item B i m w (JObj d)
       = (case py_or (dict_get b ''statuses'' JNull) (JArr []) of
            JArr statuses \<Rightarrow> concat_mapE (extract_status_obj B i m w) statuses
          | _ \<Rightarrow> Inr [])"
proof -
  let ?body0 = "py_or (dict_get j ''body'' JNull) (JObj j)"
  have body: "(case ?body0 of JArr (x # xs) \<Rightarrow> x | _ \<Rightarrow> ?body0) = JObj b"
    using assms(2) unfolding webhook_body_def
    by (cases ?body0) (auto split: list.splits)
  show ?thesis
    using assms(1) body by (simp add: extract_item_def py_get_def Let_def)
qed

lemma extract_item_statuses_not_list:
  assumes "dict_get d ''json'' (JObj []) = JObj j" and "webhook_body j = JObj b"
    and "\<not> is_arr (dict_get b ''statuses'' JNull)"
  shows "extract_item B i m w (JObj d) = Inr []"
  unfolding extract_item_body[OF assms(1,2)] using assms(3)
  by (cases "dict_get b ''statuses'' JNull") (auto simp: py_or_def)

lemma extract_item_statuses_falsy:
  assumes "dict_get d ''json'' (JObj []) = JObj j" and "webhook_body j = JObj b"
    and "\<not> truthy (dict_get b ''statuses'' JNull)"
  shows "extract_item B i m w (JObj d) = Inr []"
  unfolding extract_item_body[OF assms(1,2)] using assms(3)
  by (simp add: py_or_def)

lemma extract_item_statuses_list:
  assumes "dict_get d ''json'' (JObj []) = JObj j" and "webhook_body j = JObj b"
    and "dict_get b ''statuses'' JNull = JArr sts"
  shows "extract_item B i m w (JObj d) = concat_mapE (extract_status_obj B i m w) sts"
  unfolding extract_item_body[OF assms(1,2)] using assms(3)
  by (cases sts) (auto simp: py_or_def)

lemma extract_run_main:
  assumes "dict_get d ''data'' (JObj []) = JObj dd"
    and "dict_get dd ''main'' JNull = JArr main_data"
  shows "extract_run B i m w (JObj d) = concat_mapE (extract_main_item B i m w) main_data"
  using assms by (cases main_data) (simp_all add: extract_run_def py_get_def py_or_def py_iter_def)

lemma extract_run_no_main:
  assumes "dict_get d ''data'' (JObj []) = JObj dd"
    and "\<not> truthy (dict_get dd ''main'' JNull)"
  shows "extract_run B i m w (JObj d) = Inr []"
  using assms by (simp add: extract_run_def py_get_def py_or_def py_iter_def)

lemma extract_no_exec_data:
  assumes "\<not> truthy (execution_data d)"
  shows "extract_status_updates B (JObj d) m w = Inr []"
  using assms
  by (auto simp: extract_status_updates_def execution_data_def py_get_def py_or_def
      py_items_def dict_get_def[of "[]"] split: if_splits)

lemma extract_exec_data:
  assumes "execution_data d = JObj dd"
  shows "extract_status_updates B (JObj d) m w
       = (case py_get (py_or (dict_get dd ''resultData'' JNull) (JObj [])) ''runData'' JNull of
            Inl e \<Rightarrow> Inl e
          | Inr rund \<Rightarrow>
              (case py_items (py_or rund (JObj [])) of
                 Inl e \<Rightarrow> Inl e
               | Inr nodes \<Rightarrow>
                   concat_mapE (\<lambda>kv. extract_node B
                       (py_str B (dict_get d ''id'' (JStr ''unknown''))) m w (snd kv)) nodes))"
proof -
  have sel: "(if truthy (dict_get d ''data'' JNull) then dict_get d ''data'' JNull
              else dict_get d ''executionData'' JNull) = JObj dd"
    using assms by (simp add: execution_data_def py_or_def)
  show ?thesis
    using sel
    by (auto simp: extract_status_updates_def py_get_def py_or_obj_empty split: if_splits)
qed

lemma extract_no_result_data:
  assumes "execution_data d = JObj dd"
    and "\<not> truthy (dict_get dd ''resultData'' JNull)"
  shows "extract_status_updates B (JObj d) m w = Inr []"
  unfolding extract_exec_data[OF assms(1)] using assms(2)
  by (simp add: py_get_def py_or_def py_items_def dict_get_def[of "[]"])

lemma extract_no_run_data:
  assumes "execution_data d = JObj dd"
    and "dict_get dd ''resultData'' JNull = JObj rd"
    and "\<not> truthy (dict_get rd ''runData'' JNull)"
  shows "extract_status_updates B (JObj d) m w = Inr []"
  unfolding extract_exec_data[OF assms(1)] using assms(2,3)
  by (simp add: py_get_def py_or_obj_empty py_items_def) (simp add: py_or_def)

lemma extract_run_data:
  assumes "execution_data d = JObj dd"
    and "dict_get dd ''resultData'' JNull = JObj rd"
    and "dict_get rd ''runData'' JNull = JObj nodes"
  shows "extract_status_updates B (JObj d) m w
       = concat_mapE (\<lambda>kv. extract_node B
            (py_str B (dict_get d ''id'' (JStr ''unknown''))) m w (snd kv)) nodes"
  unfolding extract_exec_data[OF assms(1)] using assms(2,3)
  by (simp add: py_get_def py_or_obj_empty py_items_def)

lemma scan_skips_raising_execution:
  assumes "extract_status_updates B (JObj d) m w = Inl err"
  shows "scan_executions B m w since st (JObj d # rest)
       = scan_executions B m w since (st\<lparr>scanned := scanned st @ [JObj d]\<rparr>) rest"
  using assms by (simp add: py_get_def Let_def)

text \<open>
  C6 (as amended). On an execution that is a JSON object the extractor returns a list
  of events or raises. A branch whose level is guarded by a type test and has the wrong
  type contributes no event and does not disturb its siblings: node runs that are no
  list, a run that is no dictionary, an output slot that is no list, an item that is no
  dictionary, a status entry that is no dictionary drop out of the result, which is the
  result on the remaining branches; and statuses that are no list give no event,
  whatever shape the body was found in. A level that is absent or falsy gives no event:
  the execution data (under \<^verbatim>\<open>data\<close> or under \<^verbatim>\<open>executionData\<close>), \<^verbatim>\<open>resultData\<close> and
  \<^verbatim>\<open>runData\<close> on either path, \<^verbatim>\<open>main\<close>, \<^verbatim>\<open>statuses\<close>. When the extractor raises on such an
  execution, the scan of \<open>track_message_status\<close> catches the exception, takes no event
  from that execution and goes on with the next one.
\<close>

theorem extractor_guarded_levels:
  "(\<forall>d dd rd ns1 name x ns2.
        execution_data d = JObj dd \<and> dict_get dd ''resultData'' JNull = JObj rd
        \<and> dict_get rd ''runData'' JNull = JObj (ns1 @ (name, x) # ns2) \<and> \<not> is_arr x
      \<longrightarrow> extract_status_updates B (JObj d) m w
          = concat_mapE (\<lambda>kv. extract_node B
               (py_str B (dict_get d ''id'' (JStr ''unknown''))) m w (snd kv)) (ns1 @ ns2))
   \<and> (\<forall>xs x ys. \<not> is_obj x
      \<longrightarrow> extract_node B i m w (JArr (xs @ x # ys)) = extract_node B i m w (JArr (xs @ ys)))
   \<and> (\<forall>d dd xs x ys.
        dict_get d ''data'' (JObj []) = JObj dd
        \<and> dict_get dd ''main'' JNull = JArr (xs @ x # ys) \<and> \<not> is_arr x
      \<longrightarrow> extract_run B i m w (JObj d) = concat_mapE (extract_main_item B i m w) (xs @ ys))
   \<and> (\<forall>xs x ys. \<not> is_obj x
      \<longrightarrow> extract_main_item B i m w (JArr (xs @ x # ys))
          = extract_main_item B i m w (JArr (xs @ ys)))
   \<and> (\<forall>d j b xs x ys.
        dict_get d ''json'' (JObj []) = JObj j \<and> webhook_body j = JObj b
        \<and> dict_get b ''statuses'' JNull = JArr (xs @ x # ys) \<and> \<not> is_obj x
      \<longrightarrow> extract_item B i m w (JObj d)
          = concat_mapE (extract_status_obj B i m w) (xs @ ys))
   \<and> (\<forall>d j b.
        dict_get d ''json'' (JObj []) = JObj j \<and> webhook_body j = JObj b
        \<and> \<not> is_arr (dict_get b ''statuses'' JNull)
      \<longrightarrow> extract_item B i m w (JObj d) = Inr [])
   \<and> (\<forall>d j b.
        dict_get d ''json'' (JObj []) = JObj j \<and> webhook_body j = JObj b
        \<and> \<not> truthy (dict_get b ''statuses'' JNull)
      \<longrightarrow> extract_item B i m w (JObj d) = Inr [])
   \<and> (\<forall>d dd. dict_get d ''data'' (JObj []) = JObj dd \<and> \<not> truthy (dict_get dd ''main'' JNull)
      \<longrightarrow> extract_run B i m w (JObj d) = Inr [])
   \<and> (\<forall>d. \<not> truthy (execution_data d) \<longrightarrow> extract_status_updates B (JObj d) m w = Inr [])
   \<and> (\<forall>d dd. execution_data d = JObj dd \<and> \<not> truthy (dict_get dd ''resultData'' JNull)
      \<longrightarrow> extract_status_updates B (JObj d) m w = Inr [])
   \<and> (\<forall>d dd rd. execution_data d = JObj dd \<and> dict_get dd ''resultData'' JNull = JObj rd
        \<and> \<not> truthy (dict_get rd ''runData'' JNull)
      \<longrightarrow> extract_status_updates B (JObj d) m w = Inr [])
   \<and> (\<forall>d err since st rest. extract_status_updates B (JObj d) m w = Inl err
      \<longrightarrow> scan_executions B m w since st (JObj d # rest)
          = scan_executions B m w since (st\<lparr>scanned := scanned st @ [JObj d]\<rparr>) rest)"
proof (intro conjI allI impI)
  fix d dd rd ns1 name x ns2
  assume a: "execution_data d = JObj dd \<and> dict_get dd ''resultData'' JNull = JObj rd
        \<and> dict_get rd ''runData'' JNull = JObj (ns1 @ (name, x) # ns2) \<and> \<not> is_arr x"
  let ?f = "\<lambda>kv. extract_node B (py_str B (dict_get d ''id'' (JStr ''unknown''))) m w (snd kv)"
  from a have "extract_status_updates B (JObj d) m w = concat_mapE ?f (ns1 @ (name, x) # ns2)"
    by (intro extract_run_data[of d dd rd]) simp_all
  moreover have "?f (name, x) = Inr []" using a by (simp add: extract_guards(1))
  ultimately show "extract_status_updates B (JObj d) m w = concat_mapE ?f (ns1 @ ns2)"
    by (simp add: concat_mapE_skip)
next
  fix xs ys :: "json list" and x :: json assume "\<not> is_obj x"
  then have "extract_run B i m w x = Inr []" by (rule extract_guards(2))
  then show "extract_node B i m w (JArr (xs @ x # ys)) = extract_node B i m w (JArr (xs @ ys))"
    by (simp add: extract_node_def concat_mapE_skip)
next
  fix d dd xs x ys
  assume a: "dict_get d ''data'' (JObj []) = JObj dd
        \<and> dict_get dd ''main'' JNull = JArr (xs @ x # ys) \<and> \<not> is_arr x"
  then have "extract_run B i m w (JObj d)
      = concat_mapE (extract_main_item B i m w) (xs @ x # ys)"
    by (intro extract_run_main[of d dd]) simp_all
  moreover have "extract_main_item B i m w x = Inr []" using a by (simp add: extract_guards(3))
  ultimately show "extract_run B i m w (JObj d)
      = concat_mapE (extract_main_item B i m w) (xs @ ys)"
    by (simp add: concat_mapE_skip)
next
  fix xs ys :: "json list" and x :: json assume "\<not> is_obj x"
  then have "extract_item B i m w x = Inr []" by (rule extract_guards(4))
  then show "extract_main_item B i m w (JArr (xs @ x # ys))
      = extract_main_item B i m w (JArr (xs @ ys))"
    by (simp add: extract_main_item_def concat_mapE_skip)
next
  fix d j b xs x ys
  assume a: "dict_get d ''json'' (JObj []) = JObj j \<and> webhook_body j = JObj b
        \<and> dict_get b ''statuses'' JNull = JArr (xs @ x # ys) \<and> \<not> is_obj x"
  then have "extract_item B i m w (JObj d)
      = concat_mapE (extract_status_obj B i m w) (xs @ x # ys)"
    by (intro extract_item_statuses_list[of d j b]) simp_all
  moreover have "extract_status_obj B i m w x = Inr []" using a by (simp add: extract_guards(5))
  ultimately show "extract_item B i m w (JObj d)
      = concat_mapE (extract_status_obj B i m w) (xs @ ys)"
    by (simp add: concat_mapE_skip)
next
  fix d j b
  assume "dict_get d ''json'' (JObj []) = JObj j \<and> webhook_body j = JObj b
        \<and> \<not> is_arr (dict_get b ''statuses'' JNull)"
  then show "extract_item B i m w (JObj d) = Inr []"
    by (intro extract_item_statuses_not_list[of d j b]) simp_all
next
  fix d j b
  assume "dict_get d ''json'' (JObj []) = JObj j \<and> webhook_body j = JObj b
        \<and> \<not> truthy (dict_get b ''statuses'' JNull)"
  then show "extract_item B i m w (JObj d) = Inr []"
    by (intro extract_item_statuses_falsy[of d j b]) simp_all
next
  fix d dd
  assume "dict_get d ''data'' (JObj []) = JObj dd \<and> \<not> truthy (dict_get dd ''main'' JNull)"
  then show "extract_run B i m w (JObj d) = Inr []"
    by (intro extract_run_no_main[of d dd]) simp_all
next
  fix d assume "\<not> truthy (execution_data d)"
  then show "extract_status_updates B (JObj d) m w = Inr []" by (rule extract_no_exec_data)
next
  fix d dd
  assume "execution_data d = JObj dd \<and> \<not> truthy (dict_get dd ''resultData'' JNull)"
  then show "extract_status_updates B (JObj d) m w = Inr []"
    by (intro extract_no_result_data[of d dd]) simp_all
next
  fix d dd rd
  assume "execution_data d = JObj dd \<and> dict_get dd ''resultData'' JNull = JObj rd
        \<and> \<not> truthy (dict_get rd ''runData'' JNull)"
  then show "extract_status_updates B (JObj d) m w = Inr []"
    by (intro extract_no_run_data[of d dd rd]) simp_all
next
  fix d err since st rest
  assume "extract_status_updates B (JObj d) m w = Inl err"
  then show "scan_executions B m w since st (JObj d # rest)
            = scan_executions B m w since (st\<lparr>scanned := scanned st @ [JObj d]\<rparr>) rest"
    by (rule scan_skips_raising_execution)
qed

theorem extractor_guarded_levels_witness:
  "extract_status_updates simple_builtins execution_data_string ''wamid.A'' ''966''
     = Inl AttributeError
   \<and> scan_executions simple_builtins ''wamid.A'' ''966'' None
        \<lparr>all_statuses = [], found_terminal = False, scanned = []\<rparr>
        [execution_data_string, execution_sent]
     = scan_executions simple_builtins ''wamid.A'' ''966'' None
        \<lparr>all_statuses = [], found_terminal = False, scanned = [execution_data_string]\<rparr>
        [execution_sent]
   \<and> extract_node simple_builtins ''7'' ''wamid.A'' ''966''
        (JArr [JStr ''junk'', JObj [(''data'', JObj [])]])
     = extract_node simple_builtins ''7'' ''wamid.A'' ''966'' (JArr [JObj [(''data'', JObj [])]])
   \<and> execution_data [(''id'', JInt 9), (''executionData'', JObj [(''resultData'', JNull)])]
     = JObj [(''resultData'', JNull)]
   \<and> extract_status_updates simple_builtins execution_fallback_empty ''wamid.A'' ''966''
     = Inr []"
proof -
  note T = extractor_guarded_levels[of simple_builtins "''wamid.A''" "''966''" "''7''"]
  note runs_skip = T[THEN conjunct2, THEN conjunct1, rule_format]
  note no_result = T[THEN conjunct2, THEN conjunct2, THEN conjunct2, THEN conjunct2,
      THEN conjunct2, THEN conjunct2, THEN conjunct2, THEN conjunct2, THEN conjunct2,
      THEN conjunct1, rule_format]
  note recovery = T[THEN conjunct2, THEN conjunct2, THEN conjunct2, THEN conjunct2,
      THEN conjunct2, THEN conjunct2, THEN conjunct2, THEN conjunct2, THEN conjunct2,
      THEN conjunct2, THEN conjunct2, rule_format]
  have raise: "extract_status_updates simple_builtins execution_data_string ''wamid.A'' ''966''
     = Inl AttributeError" by code_simp
  then have raise': "extract_status_updates simple_builtins
      (JObj [(''id'', JInt 7), (''data'', JStr ''x'')]) ''wamid.A'' ''966'' = Inl AttributeError"
    by (simp add: execution_data_string_def)
  have skip: "scan_executions simple_builtins ''wamid.A'' ''966'' None
        \<lparr>all_statuses = [], found_terminal = False, scanned = []\<rparr>
        [execution_data_string, execution_sent]
     = scan_executions simple_builtins ''wamid.A'' ''966'' None
        \<lparr>all_statuses = [], found_terminal = False, scanned = [execution_data_string]\<rparr>
        [execution_sent]"
    using recovery[OF raise', of None
        "\<lparr>all_statuses = [], found_terminal = False, scanned = []\<rparr>" "[execution_sent]"]
    by (simp add: execution_data_string_def)
  have "\<not> is_obj (JStr ''junk'')" by simp
  from runs_skip[OF this, of "[]" "[JObj [(''data'', JObj [])]]"]
  have node: "extract_node simple_builtins ''7'' ''wamid.A'' ''966''
        (JArr [JStr ''junk'', JObj [(''data'', JObj [])]])
     = extract_node simple_builtins ''7'' ''wamid.A'' ''966'' (JArr [JObj [(''data'', JObj [])]])"
    by simp
  have ed: "execution_data [(''id'', JInt 9), (''executionData'', JObj [(''resultData'', JNull)])]
     = JObj [(''resultData'', JNull)]"
    by (simp add: execution_data_def dict_get_def py_or_def)
  have nt: "\<not> truthy (dict_get [(''resultData'', JNull)] ''resultData'' JNull)"
    by (simp add: dict_get_def)
  have "extract_status_updates simple_builtins
      (JObj [(''id'', JInt 9), (''executionData'', JObj [(''resultData'', JNull)])])
      ''wamid.A'' ''966'' = Inr []"
    by (rule no_result) (use ed nt in blast)
  then have fb: "extract_status_updates simple_builtins execution_fallback_empty
      ''wamid.A'' ''966'' = Inr []"
    by (simp add: execution_fallback_empty_def)
  from raise skip node ed fb show ?thesis by (intro conjI)
qed

text \<open>
  The claim as first stated fails: a string where the execution data should be, or a
  number where the list of output slots should be, makes the extractor raise.
\<close>

theorem extractor_raises_counterexample:
  "extract_status_updates simple_builtins execution_data_string ''wamid.A'' ''966''
     = Inl AttributeError
   \<and> extract_status_updates simple_builtins execution_main_number ''wamid.A'' ''966''
     = Inl TypeError"
  by code_simp

lemma str_status_key3:
  assumes "is_str (status e)"
  shows "history_unique_key e = event_key3 e" "py_hashable (status e)"
  using assms
  by (cases "status e"; simp add: history_unique_key_def event_key3_def py_key_def
      py_hashable_def)+

lemma deduplicate_history_first_occurrence:
  assumes "\<forall>e\<in>set h. is_str (status e)"
  shows "\<exists>dh. deduplicate_history h = Inr dh \<and> subseq dh h
          \<and> distinct (map event_key3 dh)
          \<and> event_key3 ` set dh = event_key3 ` set h
          \<and> (\<forall>e\<in>set dh. \<exists>ys zs. h = ys @ e # zs \<and> event_key3 e \<notin> event_key3 ` set ys)
          \<and> (\<forall>ys e zs. h = ys @ e # zs \<and> event_key3 e \<notin> event_key3 ` set ys \<longrightarrow> e \<in> set dh)"
proof -
  have keq: "history_unique_key e = event_key3 e" if "e \<in> set h" for e
    using that assms str_status_key3(1) by blast
  have hashable: "\<forall>e\<in>set h. py_hashable (status e)"
    using assms str_status_key3(2) by blast
  from dedup_by_first_occurrences[of h "\<lambda>item. py_hashable (status item)" history_unique_key]
    hashable
  obtain dh where
    dh: "deduplicate_history h = Inr dh" "subseq dh h"
      "distinct (map history_unique_key dh)"
      "history_unique_key ` set dh = history_unique_key ` set h"
      "\<forall>e\<in>set dh. \<exists>ys zs. h = ys @ e # zs \<and> history_unique_key e \<notin> history_unique_key ` set ys"
      "\<forall>ys e zs. h = ys @ e # zs \<and> history_unique_key e \<notin> history_unique_key ` set ys
          \<longrightarrow> e \<in> set dh"
    unfolding deduplicate_history_def by blast
  have sub: "set dh \<subseteq> set h" using dh(2) by (auto dest: list_emb_set)
  have img: "history_unique_key ` set ys = event_key3 ` set ys" if "set ys \<subseteq> set h" for ys
    using that keq by (auto simp: image_iff subset_iff)
  have mapeq: "map history_unique_key dh = map event_key3 dh" using sub keq by auto
  have d1: "distinct (map event_key3 dh)" using dh(3) mapeq by simp
  have d2: "event_key3 ` set dh = event_key3 ` set h"
    using dh(4) img[OF sub] img[of h] by simp
  have d3: "\<forall>e\<in>set dh. \<exists>ys zs. h = ys @ e # zs \<and> event_key3 e \<notin> event_key3 ` set ys"
  proof
    fix e assume e: "e \<in> set dh"
    with dh(5) obtain ys zs where
      y: "h = ys @ e # zs" "history_unique_key e \<notin> history_unique_key ` set ys" by blast
    have "set ys \<subseteq> set h" using y(1) by auto
    from img[OF this] y(2) keq[of e] e sub have "event_key3 e \<notin> event_key3 ` set ys" by auto
    with y(1) show "\<exists>ys zs. h = ys @ e # zs \<and> event_key3 e \<notin> event_key3 ` set ys" by blast
  qed
  have d4: "\<forall>ys e zs. h = ys @ e # zs \<and> event_key3 e \<notin> event_key3 ` set ys \<longrightarrow> e \<in> set dh"
  proof (intro allI impI)
    fix ys e zs assume a: "h = ys @ e # zs \<and> event_key3 e \<notin> event_key3 ` set ys"
    then have "set ys \<subseteq> set h" "e \<in> set h" by auto
    from img[OF this(1)] keq[OF this(2)] a
    have "h = ys @ e # zs \<and> history_unique_key e \<notin> history_unique_key ` set ys" by simp
    with dh(6) show "e \<in> set dh" by blast
  qed
  show ?thesis using dh(1,2) d1 d2 d3 d4 by blast
qed

lemma later_duplicate_dropped:
  assumes "distinct (map k dh)" "a \<in> set dh" "k a = k b" "a \<noteq> b"
  shows "b \<notin> set dh"
proof
  assume "b \<in> set dh"
  moreover have "inj_on k (set dh)" using assms(1) by (simp add: distinct_map)
  ultimately show False using assms(2,3,4) by (auto dest: inj_onD)
qed

lemma save_single_insert:
  assumes "m_messageId msg \<noteq> []" "coll (m_messageId msg) = None"
    and "m_history msg \<noteq> []" "deduplicate_history (m_history msg) = Inr dh"
  shows "save_messages_to_mongodb now workflow_id coll [msg]
       = (coll(m_messageId msg \<mapsto>
            \<lparr>d_messageId = m_messageId msg, d_conversation_id = m_waId msg,
              d_latestStatus = m_latestStatus msg, d_latestTimestamp = m_latestTimestamp msg,
              d_latestTimestampFormatted = m_latestTimestampFormatted msg,
              d_statusCount = length dh, d_workflowId = workflow_id,
              d_firstSeenAt = now, d_lastUpdatedAt = now, d_lastScannedAt = now,
              d_statusHistory = Some dh\<rparr>), 1)"
  using assms
  by (simp add: save_messages_to_mongodb_def plan_update_def bulk_write_def Let_def)

lemma save_single_changed:
  assumes "m_messageId msg \<noteq> []" "coll (m_messageId msg) = Some ex"
    and "m_latestTimestamp msg = Some new_ts" "d_latestTimestamp ex = Some old_ts"
    and "old_ts < new_ts \<or> m_latestStatus msg \<noteq> d_latestStatus ex"
    and "m_history msg \<noteq> []" "deduplicate_history (m_history msg) = Inr dh"
  shows "save_messages_to_mongodb now workflow_id coll [msg]
       = (coll(m_messageId msg \<mapsto>
            ex\<lparr>d_conversation_id := m_waId msg, d_latestStatus := m_latestStatus msg,
               d_latestTimestamp := m_latestTimestamp msg,
               d_latestTimestampFormatted := m_latestTimestampFormatted msg,
               d_statusCount := length dh, d_workflowId := workflow_id,
               d_lastUpdatedAt := now, d_lastScannedAt := now,
               d_statusHistory := Some dh\<rparr>), 1)"
  using assms
  by (auto simp: save_messages_to_mongodb_def plan_update_def bulk_write_def Let_def py_gt_def)



lemma save_none_timestamp_writes_nothing:
  assumes "m_messageId msg \<noteq> []" "coll (m_messageId msg) = Some ex"
    and "m_latestTimestamp msg = None \<or> d_latestTimestamp ex = None"
  shows "save_messages_to_mongodb now workflow_id coll [msg] = (coll, 0)"
  using assms
  by (auto simp: save_messages_to_mongodb_def plan_update_def py_gt_def
      split: option.splits)







text \<open>
  C10 (as amended). \<open>deduplicate_history\<close> identifies duplicates by status, timestamp
  and executionId only: on a history with string statuses it keeps the first occurrence
  of each such triple, in order, so of two events that agree on the three fields and
  differ in the recipient identifier or in the mismatch flag only the first is kept.
  Whenever the upsert writes the history, that is when it inserts the document or
  updates it on a change, the persisted \<open>statusHistory\<close> is that deduplicated history and
  the persisted \<open>statusCount\<close> is its length.
\<close>

theorem persisted_history_three_field_key:
  assumes "m_messageId msg \<noteq> []" and "m_history msg \<noteq> []"
    and "\<forall>e\<in>set (m_history msg). is_str (status e)"
  shows "\<exists>dh. deduplicate_history (m_history msg) = Inr dh
          \<and> subseq dh (m_history msg)
          \<and> distinct (map event_key3 dh)
          \<and> event_key3 ` set dh = event_key3 ` set (m_history msg)
          \<and> (\<forall>e\<in>set dh. \<exists>ys zs. m_history msg = ys @ e # zs
                 \<and> event_key3 e \<notin> event_key3 ` set ys)
          \<and> (\<forall>ys a zs b ws. m_history msg = ys @ a # zs @ b # ws
                 \<and> event_key3 a = event_key3 b \<and> event_key3 a \<notin> event_key3 ` set ys
                 \<and> (recipient_id a \<noteq> recipient_id b \<or> recipientMismatch a \<noteq> recipientMismatch b)
               \<longrightarrow> a \<in> set dh \<and> b \<notin> set dh)
          \<and> (coll (m_messageId msg) = None
               \<longrightarrow> (\<exists>doc. fst (save_messages_to_mongodb now workflow_id coll [msg])
                              (m_messageId msg) = Some doc
                     \<and> d_statusHistory doc = Some dh \<and> d_statusCount doc = length dh))
          \<and> (\<forall>ex new_ts old_ts. coll (m_messageId msg) = Some ex
                 \<and> m_latestTimestamp msg = Some new_ts \<and> d_latestTimestamp ex = Some old_ts
                 \<and> (old_ts < new_ts \<or> m_latestStatus msg \<noteq> d_latestStatus ex)
               \<longrightarrow> (\<exists>doc. fst (save_messages_to_mongodb now workflow_id coll [msg])
                              (m_messageId msg) = Some doc
                     \<and> d_statusHistory doc = Some dh \<and> d_statusCount doc = length dh))"
proof -
  from deduplicate_history_first_occurrence[OF assms(3)] obtain dh where
    dh: "deduplicate_history (m_history msg) = Inr dh" "subseq dh (m_history msg)"
      "distinct (map event_key3 dh)" "event_key3 ` set dh = event_key3 ` set (m_history msg)"
      "\<forall>e\<in>set dh. \<exists>ys zs. m_history msg = ys @ e # zs \<and> event_key3 e \<notin> event_key3 ` set ys"
      "\<forall>ys e zs. m_history msg = ys @ e # zs \<and> event_key3 e \<notin> event_key3 ` set ys
          \<longrightarrow> e \<in> set dh"
    by blast
  have dup: "\<forall>ys a zs b ws. m_history msg = ys @ a # zs @ b # ws
                 \<and> event_key3 a = event_key3 b \<and> event_key3 a \<notin> event_key3 ` set ys
                 \<and> (recipient_id a \<noteq> recipient_id b \<or> recipientMismatch a \<noteq> recipientMismatch b)
               \<longrightarrow> a \<in> set dh \<and> b \<notin> set dh"
  proof (intro allI impI)
    fix ys a zs b ws
    assume a: "m_history msg = ys @ a # zs @ b # ws
                 \<and> event_key3 a = event_key3 b \<and> event_key3 a \<notin> event_key3 ` set ys
                 \<and> (recipient_id a \<noteq> recipient_id b \<or> recipientMismatch a \<noteq> recipientMismatch b)"
    then have "m_history msg = ys @ a # (zs @ b # ws)" "event_key3 a \<notin> event_key3 ` set ys"
      by blast+
    then have "m_history msg = ys @ a # (zs @ b # ws) \<and> event_key3 a \<notin> event_key3 ` set ys"
      by (rule conjI)
    with dh(6) have ain: "a \<in> set dh" by blast
    have "a \<noteq> b" using a by auto
    with later_duplicate_dropped[OF dh(3) ain] a have "b \<notin> set dh" by blast
    with ain show "a \<in> set dh \<and> b \<notin> set dh" by simp
  qed
  have ins: "coll (m_messageId msg) = None
               \<longrightarrow> (\<exists>doc. fst (save_messages_to_mongodb now workflow_id coll [msg])
                              (m_messageId msg) = Some doc
                     \<and> d_statusHistory doc = Some dh \<and> d_statusCount doc = length dh)"
  proof
    assume n: "coll (m_messageId msg) = None"
    from save_single_insert[where msg = msg and coll = coll and now = now
        and workflow_id = workflow_id, OF assms(1) n assms(2) dh(1)]
    show "\<exists>doc. fst (save_messages_to_mongodb now workflow_id coll [msg])
                              (m_messageId msg) = Some doc
                     \<and> d_statusHistory doc = Some dh \<and> d_statusCount doc = length dh"
      by simp
  qed
  have chg: "\<forall>ex new_ts old_ts. coll (m_messageId msg) = Some ex
                 \<and> m_latestTimestamp msg = Some new_ts \<and> d_latestTimestamp ex = Some old_ts
                 \<and> (old_ts < new_ts \<or> m_latestStatus msg \<noteq> d_latestStatus ex)
               \<longrightarrow> (\<exists>doc. fst (save_messages_to_mongodb now workflow_id coll [msg])
                              (m_messageId msg) = Some doc
                     \<and> d_statusHistory doc = Some dh \<and> d_statusCount doc = length dh)"
  proof (intro allI impI)
    fix ex new_ts old_ts
    assume a: "coll (m_messageId msg) = Some ex
                 \<and> m_latestTimestamp msg = Some new_ts \<and> d_latestTimestamp ex = Some old_ts
                 \<and> (old_ts < new_ts \<or> m_latestStatus msg \<noteq> d_latestStatus ex)"
    then have f: "coll (m_messageId msg) = Some ex" "m_latestTimestamp msg = Some new_ts"
      "d_latestTimestamp ex = Some old_ts"
      "old_ts < new_ts \<or> m_latestStatus msg \<noteq> d_latestStatus ex" by simp_all
    from save_single_changed[where msg = msg and coll = coll and now = now
        and workflow_id = workflow_id, OF assms(1) f(1,2,3,4) assms(2) dh(1)]
    show "\<exists>doc. fst (save_messages_to_mongodb now workflow_id coll [msg])
                              (m_messageId msg) = Some doc
                     \<and> d_statusHistory doc = Some dh \<and> d_statusCount doc = length dh"
      by simp
  qed
  show ?thesis
    by (rule exI[of _ dh]) (intro conjI dh(1) dh(2) dh(3) dh(4) dh(5) dup ins chg)
qed

theorem persisted_history_three_field_key_witness:
  "m_messageId message_read = ''wamid.A''
   \<and> m_history message_read = [event_read, event_sent, event_sent_other]
   \<and> list_all (\<lambda>e. is_str (status e)) (m_history message_read)
   \<and> event_key3 event_sent = event_key3 event_sent_other
   \<and> deduplicate_history (m_history message_read) = Inr [event_read, event_sent]
   \<and> (\<exists>dh doc. deduplicate_history (m_history message_read) = Inr dh
         \<and> fst (save_messages_to_mongodb 20 ''wf'' (stored doc_sent) [message_read])
              (m_messageId message_read) = Some doc
         \<and> d_statusHistory doc = Some dh \<and> d_statusCount doc = length dh)
   \<and> fst (save_messages_to_mongodb 20 ''wf'' (stored doc_sent) [message_read]) ''wamid.A''
       = Some \<lparr>d_messageId = ''wamid.A'', d_conversation_id = JStr ''966'',
               d_latestStatus = ''read'', d_latestTimestamp = Some 1700000300,
               d_latestTimestampFormatted = Some ''2023-11-15 01:18'', d_statusCount = 2,
               d_workflowId = ''wf'', d_firstSeenAt = 10, d_lastUpdatedAt = 20,
               d_lastScannedAt = 20, d_statusHistory = Some [event_read, event_sent]\<rparr>"
proof -
  have h1: "m_messageId message_read \<noteq> []" by (simp add: message_read_def)
  have h1': "m_messageId message_read = ''wamid.A''" by (simp add: message_read_def)
  have h2: "m_history message_read \<noteq> []" by (simp add: message_read_def)
  have h2': "m_history message_read = [event_read, event_sent, event_sent_other]"
    by (simp add: message_read_def)
  have h3: "\<forall>e\<in>set (m_history message_read). is_str (status e)"
    by (simp add: message_read_def event_read_def event_sent_def event_sent_other_def)
  have h3': "list_all (\<lambda>e. is_str (status e)) (m_history message_read)"
    using h3 by (simp add: list_all_iff)
  have k: "event_key3 event_sent = event_key3 event_sent_other"
    by (simp add: event_key3_def event_sent_def event_sent_other_def)
  have d: "deduplicate_history (m_history message_read) = Inr [event_read, event_sent]"
    by code_simp
  have cs: "stored doc_sent (m_messageId message_read) = Some doc_sent"
    by (simp add: stored_def doc_sent_def message_read_def)
  have ts: "m_latestTimestamp message_read = Some 1700000300"
    "d_latestTimestamp doc_sent = Some 1700000100"
    "m_latestStatus message_read \<noteq> d_latestStatus doc_sent"
    by (simp_all add: doc_sent_def message_read_def)
  from persisted_history_three_field_key[OF h1 h2 h3, of "stored doc_sent" 20 "''wf''"]
  obtain dh where dh: "deduplicate_history (m_history message_read) = Inr dh"
    and chg: "\<forall>ex new_ts old_ts. stored doc_sent (m_messageId message_read) = Some ex
                 \<and> m_latestTimestamp message_read = Some new_ts
                 \<and> d_latestTimestamp ex = Some old_ts
                 \<and> (old_ts < new_ts \<or> m_latestStatus message_read \<noteq> d_latestStatus ex)
               \<longrightarrow> (\<exists>doc. fst (save_messages_to_mongodb 20 ''wf'' (stored doc_sent)
                                [message_read]) (m_messageId message_read) = Some doc
                     \<and> d_statusHistory doc = Some dh \<and> d_statusCount doc = length dh)"
    by blast
  from chg[rule_format, of doc_sent 1700000300 1700000100] cs ts obtain doc where
    "fst (save_messages_to_mongodb 20 ''wf'' (stored doc_sent) [message_read])
        (m_messageId message_read) = Some doc"
    "d_statusHistory doc = Some dh" "d_statusCount doc = length dh"
    by auto
  with dh have ex: "\<exists>dh doc. deduplicate_history (m_history message_read) = Inr dh
         \<and> fst (save_messages_to_mongodb 20 ''wf'' (stored doc_sent) [message_read])
              (m_messageId message_read) = Some doc
         \<and> d_statusHistory doc = Some dh \<and> d_statusCount doc = length dh"
    by blast
  have v: "fst (save_messages_to_mongodb 20 ''wf'' (stored doc_sent) [message_read]) ''wamid.A''
       = Some \<lparr>d_messageId = ''wamid.A'', d_conversation_id = JStr ''966'',
               d_latestStatus = ''read'', d_latestTimestamp = Some 1700000300,
               d_latestTimestampFormatted = Some ''2023-11-15 01:18'', d_statusCount = 2,
               d_workflowId = ''wf'', d_firstSeenAt = 10, d_lastUpdatedAt = 20,
               d_lastScannedAt = 20, d_statusHistory = Some [event_read, event_sent]\<rparr>"
    by code_simp
  from h1' h2' h3' k d ex v show ?thesis by (intro conjI)
qed

text \<open>
  The claim as first stated fails: when the stored document already has the incoming
  status and timestamp, the upsert only refreshes the scan time. The incoming history
  deduplicates to two events; the persisted history keeps its one event and the
  persisted count stays 1.
\<close>

theorem unchanged_message_keeps_stored_history_counterexample:
  "deduplicate_history (m_history message_read) = Inr [event_read, event_sent]
   \<and> fst (save_messages_to_mongodb 20 ''wf'' (stored doc_read) [message_read]) ''wamid.A''
       = Some \<lparr>d_messageId = ''wamid.A'', d_conversation_id = JStr ''966'',
               d_latestStatus = ''read'', d_latestTimestamp = Some 1700000300,
               d_latestTimestampFormatted = Some ''2023-11-15 01:18'', d_statusCount = 1,
               d_workflowId = ''wf'', d_firstSeenAt = 10, d_lastUpdatedAt = 15,
               d_lastScannedAt = 20, d_statusHistory = Some [event_read]\<rparr>"
  by code_simp
end
